theory Spec2Isabelle
  imports Main "HOL-Library.Sublist"
begin

section \<open>JavaScript strings and values\<close>

text \<open>
  A JavaScript string is a sequence of UTF-16 code units; \<open>length\<close>, \<open>indexOf\<close>,
  \<open>substring\<close> and the regular expressions of the source (none has the \<open>u\<close> flag) all
  count and match code units. A code unit is modelled as a natural number, a string as a
  list of them; \<open>str\<close> reads an ASCII literal of the source.
\<close>

type_synonym jschar = nat
type_synonym jsstring = "jschar list"

definition str :: "string \<Rightarrow> jsstring" where
  "str s = map of_char s"

text \<open>The character classes of the regular expressions: \<open>\s\<close>, the line terminators
  (what \<open>.\<close> excludes and what \<open>^\<close> and \<open>$\<close> look at under the \<open>m\<close> flag), \<open>\d\<close>, and
  \<open>[a-z]\<close> under the \<open>i\<close> flag.\<close>

definition isLineTerminator :: "jschar \<Rightarrow> bool" where
  "isLineTerminator c \<longleftrightarrow> c = 0x0A \<or> c = 0x0D \<or> c = 0x2028 \<or> c = 0x2029"

definition isWhiteSpace :: "jschar \<Rightarrow> bool" where
  "isWhiteSpace c \<longleftrightarrow>
     c = 0x09 \<or> c = 0x0B \<or> c = 0x0C \<or> c = 0x20 \<or> c = 0xA0 \<or> c = 0x1680 \<or>
     (0x2000 \<le> c \<and> c \<le> 0x200A) \<or> c = 0x202F \<or> c = 0x205F \<or> c = 0x3000 \<or>
     c = 0xFEFF \<or> isLineTerminator c"

definition isDigit :: "jschar \<Rightarrow> bool" where
  "isDigit c \<longleftrightarrow> 0x30 \<le> c \<and> c \<le> 0x39"

definition isLetter :: "jschar \<Rightarrow> bool" where
  "isLetter c \<longleftrightarrow> (0x41 \<le> c \<and> c \<le> 0x5A) \<or> (0x61 \<le> c \<and> c \<le> 0x7A)"

text \<open>
  \<open>toLowerCase\<close> and \<open>toUpperCase\<close> on the ASCII letters. Code units outside ASCII are
  left as they are: the model covers the case mapping of ASCII text only (the mapping of
  JavaScript changes other cased characters too and can lengthen the text). What is
  proved below about a heading uses only that upper-casing neither makes nor removes a
  line feed, a question mark, a hyphen or a hash sign.
\<close>

definition lowerChar :: "jschar \<Rightarrow> jschar" where
  "lowerChar c = (if 0x41 \<le> c \<and> c \<le> 0x5A then c + 0x20 else c)"

definition upperChar :: "jschar \<Rightarrow> jschar" where
  "upperChar c = (if 0x61 \<le> c \<and> c \<le> 0x7A then c - 0x20 else c)"

definition toLowerCase :: "jsstring \<Rightarrow> jsstring" where
  "toLowerCase s = map lowerChar s"

definition toUpperCase :: "jsstring \<Rightarrow> jsstring" where
  "toUpperCase s = map upperChar s"

definition trim :: "jsstring \<Rightarrow> jsstring" where
  "trim s = rev (dropWhile isWhiteSpace (rev (dropWhile isWhiteSpace s)))"

text \<open>\<open>s.includes(t)\<close>: \<open>t\<close> starts at some position of \<open>s\<close>.\<close>

fun includes_js :: "jsstring \<Rightarrow> jsstring \<Rightarrow> bool" where
  "includes_js [] t = (t = [])"
| "includes_js (c # cs) t = (prefix t (c # cs) \<or> includes_js cs t)"

text \<open>\<open>s.indexOf(c)\<close> for a one-character needle, \<open>-1\<close> when absent, and
  \<open>s.substring(0, e)\<close>, which clamps \<open>e\<close> to the string.\<close>

definition indexOf :: "jsstring \<Rightarrow> jschar \<Rightarrow> int" where
  "indexOf s c = (if c \<in> set s then int (length (takeWhile (\<lambda>d. d \<noteq> c) s)) else - 1)"

definition substring0 :: "jsstring \<Rightarrow> int \<Rightarrow> jsstring" where
  "substring0 s e = take (nat e) s"

text \<open>A string-valued property of an object: absent (\<open>undefined\<close>) or a string. It is
  truthy when it is a non-empty string.\<close>

definition truthy :: "jsstring option \<Rightarrow> bool" where
  "truthy v \<longleftrightarrow> (case v of None \<Rightarrow> False | Some s \<Rightarrow> s \<noteq> [])"

text \<open>The values a parsed JSON body is made of (an object holds each key once).\<close>

datatype jsval =
    JUndefined
  | JNull
  | JBool bool
  | JNum int
  | JStr jsstring
  | JArr "jsval list"
  | JObj "(string \<times> jsval) list"

fun truthyVal :: "jsval \<Rightarrow> bool" where
  "truthyVal JUndefined = False"
| "truthyVal JNull = False"
| "truthyVal (JBool b) = b"
| "truthyVal (JNum n) = (n \<noteq> 0)"
| "truthyVal (JStr s) = (s \<noteq> [])"
| "truthyVal (JArr xs) = True"
| "truthyVal (JObj kvs) = True"

text \<open>\<open>v.name\<close> for one of the names \<open>choices\<close>, \<open>message\<close>, \<open>content\<close> (own
  properties of objects only), and \<open>v[0]\<close>.\<close>

fun getField :: "jsval \<Rightarrow> string \<Rightarrow> jsval" where
  "getField (JObj kvs) k = (case map_of kvs k of Some v \<Rightarrow> v | None \<Rightarrow> JUndefined)"
| "getField v k = JUndefined"

fun getFirst :: "jsval \<Rightarrow> jsval" where
  "getFirst (JArr (x # xs)) = x"
| "getFirst (JStr (c # cs)) = JStr [c]"
| "getFirst (JObj kvs) = (case map_of kvs ''0'' of Some v \<Rightarrow> v | None \<Rightarrow> JUndefined)"
| "getFirst v = JUndefined"

section \<open>Regular expressions of the controller\<close>

text \<open>
  A literal of a pattern under the \<open>i\<close> flag: each code unit is compared after
  canonicalisation (upper-casing); the result is the rest of the input behind the literal.
  The literals of the source are ASCII, and canonicalisation never maps a code unit
  outside ASCII into ASCII, so \<open>upperChar\<close> decides the comparison for every input.
\<close>

fun matchLiteral :: "jsstring \<Rightarrow> jsstring \<Rightarrow> jsstring option" where
  "matchLiteral [] s = Some s"
| "matchLiteral (p # ps) [] = None"
| "matchLiteral (p # ps) (c # cs) =
     (if upperChar c = upperChar p then matchLiteral ps cs else None)"

text \<open>
  An alternation \<open>(?:a|b|c)\<close> of literals followed by the rest of the pattern \<open>k\<close>: the
  alternatives are tried in order, and when the rest fails behind one alternative the
  next one is tried (backtracking).
\<close>

fun matchAlt :: "jsstring list \<Rightarrow> (jsstring \<Rightarrow> 'a option) \<Rightarrow> jsstring \<Rightarrow> 'a option" where
  "matchAlt [] k s = None"
| "matchAlt (a # as) k s =
     (case matchLiteral a s of
        None \<Rightarrow> matchAlt as k s
      | Some rest \<Rightarrow> (case k rest of Some r \<Rightarrow> Some r | None \<Rightarrow> matchAlt as k s))"

text \<open>\<open>s.match(re)\<close> without the \<open>g\<close> flag: the leftmost position where the pattern
  matches, the end of the string included.\<close>

fun regexSearch :: "(jsstring \<Rightarrow> 'a option) \<Rightarrow> jsstring \<Rightarrow> 'a option" where
  "regexSearch m [] = m []"
| "regexSearch m (c # cs) =
     (case m (c # cs) of Some r \<Rightarrow> Some r | None \<Rightarrow> regexSearch m cs)"

section \<open>Information Extractor\<close>

text \<open>The lead of \<open>models/Lead.js\<close>: every attribute is a string or absent; a turn of
  the history has a sender and a message.\<close>

record turn =
  sender :: jsstring
  message :: jsstring

record lead =
  name :: "jsstring option"
  phone :: "jsstring option"
  budget :: "jsstring option"
  preferredLocation :: "jsstring option"
  propertyType :: "jsstring option"
  messageHistory :: "turn list"

text \<open>\<open>new Lead()\<close>: no attribute set, an empty history.\<close>

definition newLead :: lead where
  "newLead = \<lparr> name = None, phone = None, budget = None, preferredLocation = None,
               propertyType = None, messageHistory = [] \<rparr>"

text \<open>The object \<open>info\<close> that \<open>extractUserInfo\<close> fills.\<close>

record info =
  info_name :: "jsstring option"
  info_budget :: "jsstring option"
  info_preferredLocation :: "jsstring option"
  info_propertyType :: "jsstring option"

text \<open>
  \<open>/(?:my name is|i am|i'm) ([a-z\s]+)/i\<close>. Behind the trigger comes one space and the
  group, the longest run of letters and white space, which must not be empty; nothing
  follows the group, so the greedy run is the match. The result is group 1.
\<close>

definition nameTriggers :: "jsstring list" where
  "nameTriggers = [str ''my name is'', str ''i am'', str ''i'm'']"

definition isNameChar :: "jschar \<Rightarrow> bool" where
  "isNameChar c \<longleftrightarrow> isLetter c \<or> isWhiteSpace c"

definition nameTail :: "jsstring \<Rightarrow> jsstring option" where
  "nameTail rest =
     (case rest of
        [] \<Rightarrow> None
      | c # r \<Rightarrow> if c = 0x20 \<and> takeWhile isNameChar r \<noteq> []
                 then Some (takeWhile isNameChar r) else None)"

text \<open>The pattern tried at the start of \<open>s\<close>, and searched for in a message.\<close>

definition nameMatchAt :: "jsstring \<Rightarrow> jsstring option" where
  "nameMatchAt s = matchAlt nameTriggers nameTail s"

definition nameMatch :: "jsstring \<Rightarrow> jsstring option" where
  "nameMatch msg = regexSearch nameMatchAt msg"

text \<open>
  \<open>/(?:budget|afford|looking for|range|price) [^\d]*(\d+[\d,.]*)/i\<close>. \<open>[^\d]*\<close> takes the
  longest run of non-digits (giving some of them back cannot help: a digit must follow);
  the group is the digits found there and then the run of digits, commas and points.
\<close>

definition budgetTriggers :: "jsstring list" where
  "budgetTriggers =
     [str ''budget'', str ''afford'', str ''looking for'', str ''range'', str ''price'']"

definition isBudgetChar :: "jschar \<Rightarrow> bool" where
  "isBudgetChar c \<longleftrightarrow> isDigit c \<or> c = 0x2C \<or> c = 0x2E"

definition budgetTail :: "jsstring \<Rightarrow> jsstring option" where
  "budgetTail rest =
     (case rest of
        [] \<Rightarrow> None
      | c # r \<Rightarrow>
          (let d = dropWhile (\<lambda>x. \<not> isDigit x) r in
           if c = 0x20 \<and> takeWhile isDigit d \<noteq> []
           then Some (takeWhile isDigit d @ takeWhile isBudgetChar (dropWhile isDigit d))
           else None))"

definition budgetMatch :: "jsstring \<Rightarrow> jsstring option" where
  "budgetMatch msg = regexSearch (matchAlt budgetTriggers budgetTail) msg"

text \<open>\<open>/(?:location|area|place|interested in) ([a-z\s,]+)/i\<close>.\<close>

definition locationTriggers :: "jsstring list" where
  "locationTriggers =
     [str ''location'', str ''area'', str ''place'', str ''interested in'']"

definition isLocationChar :: "jschar \<Rightarrow> bool" where
  "isLocationChar c \<longleftrightarrow> isLetter c \<or> isWhiteSpace c \<or> c = 0x2C"

definition locationTail :: "jsstring \<Rightarrow> jsstring option" where
  "locationTail rest =
     (case rest of
        [] \<Rightarrow> None
      | c # r \<Rightarrow> if c = 0x20 \<and> takeWhile isLocationChar r \<noteq> []
                 then Some (takeWhile isLocationChar r) else None)"

definition locationMatch :: "jsstring \<Rightarrow> jsstring option" where
  "locationMatch msg = regexSearch (matchAlt locationTriggers locationTail) msg"

definition propertyTypes :: "jsstring list" where
  "propertyTypes =
     [str ''apartment'', str ''house'', str ''condo'', str ''villa'', str ''flat'',
      str ''studio'', str ''penthouse'', str ''duplex'']"

text \<open>The loop over \<open>propertyTypes\<close> with its \<open>break\<close>: the first type that the
  lower-cased message includes, if any.\<close>

fun firstIncluded :: "jsstring list \<Rightarrow> jsstring \<Rightarrow> jsstring option" where
  "firstIncluded [] msg = None"
| "firstIncluded (t # ts) msg =
     (if includes_js (toLowerCase msg) t then Some t else firstIncluded ts msg)"

text \<open>\<open>if (m && m[1]) info.x = m[1].trim()\<close>: the field is set when the pattern matched
  with a non-empty group.\<close>

definition trimmedGroup :: "jsstring option \<Rightarrow> jsstring option" where
  "trimmedGroup m = (if truthy m then map_option trim m else None)"

definition extractUserInfo :: "jsstring \<Rightarrow> info" where
  "extractUserInfo msg =
     \<lparr> info_name = trimmedGroup (nameMatch msg),
       info_budget = trimmedGroup (budgetMatch msg),
       info_preferredLocation = trimmedGroup (locationMatch msg),
       info_propertyType = firstIncluded propertyTypes msg \<rparr>"

section \<open>Template Responder\<close>

text \<open>\<open>/^(hi|hello|hey|greetings)/i\<close>: without the \<open>m\<close> flag \<open>^\<close> is the start of the
  message, so only position 0 is tried.\<close>

definition greetings :: "jsstring list" where
  "greetings = [str ''hi'', str ''hello'', str ''hey'', str ''greetings'']"

definition greetingMatch :: "jsstring \<Rightarrow> bool" where
  "greetingMatch msg \<longleftrightarrow> matchAlt greetings (\<lambda>rest. Some ()) msg \<noteq> None"

text \<open>\<open>${v}\<close> inside a template literal.\<close>

definition interpolate :: "jsstring option \<Rightarrow> jsstring" where
  "interpolate v = (case v of None \<Rightarrow> str ''undefined'' | Some s \<Rightarrow> s)"

text \<open>The reply of the last state, when all four attributes are known.\<close>

definition fullSummary :: "lead \<Rightarrow> jsstring" where
  "fullSummary leadInfo =
     str ''Thank you for providing all the details, '' @ interpolate (name leadInfo)
     @ str ''. I'll help you find '' @ interpolate (propertyType leadInfo)
     @ str '' properties in '' @ interpolate (preferredLocation leadInfo)
     @ str '' within your budget of '' @ interpolate (budget leadInfo)
     @ str ''. A real estate agent will contact you soon with some great options. Is there anything else you'd like to know?''"

definition generateTemplateResponse :: "jsstring \<Rightarrow> lead \<Rightarrow> jsstring" where
  "generateTemplateResponse msg leadInfo =
    (if greetingMatch msg then
       (if truthy (name leadInfo)
        then str ''Hello '' @ interpolate (name leadInfo)
             @ str ''! How can I help you with your real estate search today?''
        else str ''Hello! I'm your real estate assistant. May I know your name?'')
     else if \<not> truthy (name leadInfo) \<and> length msg > 3 then
       (if truthy (nameMatch msg)
        then str ''Nice to meet you, '' @ interpolate (map_option trim (nameMatch msg))
             @ str ''! What kind of property are you looking for?''
        else str ''Thanks for your message! May I know your name so I can better assist you?'')
     else if truthy (name leadInfo) \<and> \<not> truthy (propertyType leadInfo) then
       (case firstIncluded propertyTypes msg of
          Some t \<Rightarrow> str ''Great! I'll help you find a '' @ t
                    @ str ''. Do you have a specific budget in mind?''
        | None \<Rightarrow> str ''What type of property are you interested in? Apartment, house, condo?'')
     else if truthy (name leadInfo) \<and> truthy (propertyType leadInfo)
             \<and> \<not> truthy (budget leadInfo) then
       (if truthy (budgetMatch msg)
        then str ''Thank you! And do you have a preferred location or area in mind?''
        else str ''What's your budget range for the '' @ interpolate (propertyType leadInfo)
             @ str ''?'')
     else if truthy (name leadInfo) \<and> truthy (propertyType leadInfo)
             \<and> truthy (budget leadInfo) \<and> \<not> truthy (preferredLocation leadInfo) then
       (if truthy (locationMatch msg)
        then str ''Perfect! I'll look for '' @ interpolate (propertyType leadInfo)
             @ str '' properties in '' @ interpolate (map_option trim (locationMatch msg))
             @ str '' within your budget. Is there anything specific you're looking for in the property?''
        else str ''Which area or location are you interested in?'')
     else if truthy (name leadInfo) \<and> truthy (propertyType leadInfo)
             \<and> truthy (budget leadInfo) \<and> truthy (preferredLocation leadInfo) then
       fullSummary leadInfo
     else str ''Thank you for your message. How else can I assist you with your property search?'')"

section \<open>Response Formatter\<close>

text \<open>\<open>response.replace(/\n{2,}/g, '\n\n')\<close>: every maximal run of two or more line
  feeds becomes two line feeds.\<close>

function withParagraphs :: "jsstring \<Rightarrow> jsstring" where
  "withParagraphs [] = []"
| "withParagraphs (c # cs) =
     (if c = 0x0A \<and> takeWhile (\<lambda>d. d = 0x0A) cs \<noteq> []
      then 0x0A # 0x0A # withParagraphs (dropWhile (\<lambda>d. d = 0x0A) cs)
      else c # withParagraphs cs)"
  by pat_completeness auto
termination
  by (relation "measure length") (auto simp: le_imp_less_Suc length_dropWhile_le)

text \<open>
  \<open>(.+)$\<close> under the \<open>m\<close> flag: the group is the longest run of code units that are not
  line terminators, at least one; behind it is a line terminator or the end, so \<open>$\<close>
  holds. The result is the group and the input behind the match.
\<close>

definition restOfLine :: "jsstring \<Rightarrow> (jsstring \<times> jsstring) option" where
  "restOfLine r =
     (if takeWhile (\<lambda>c. \<not> isLineTerminator c) r = [] then None
      else Some (takeWhile (\<lambda>c. \<not> isLineTerminator c) r,
                 dropWhile (\<lambda>c. \<not> isLineTerminator c) r))"

text \<open>
  \<open>^\s*-\s(.+)$\<close> tried at a position where \<open>^\<close> holds: \<open>\s*\<close> takes all the white
  space there is (line terminators too), then come the hyphen, one white-space code unit
  and the group.
\<close>

definition bulletMatch :: "jsstring \<Rightarrow> (jsstring \<times> jsstring) option" where
  "bulletMatch s =
     (case dropWhile isWhiteSpace s of
        d # w # r \<Rightarrow> if d = 0x2D \<and> isWhiteSpace w then restOfLine r else None
      | _ \<Rightarrow> None)"

text \<open>\<open>^#+\s(.+)$\<close> tried at a position where \<open>^\<close> holds.\<close>

definition headingMatch :: "jsstring \<Rightarrow> (jsstring \<times> jsstring) option" where
  "headingMatch s =
     (if takeWhile (\<lambda>c. c = 0x23) s = [] then None
      else case dropWhile (\<lambda>c. c = 0x23) s of
             w # r \<Rightarrow> if isWhiteSpace w then restOfLine r else None
           | [] \<Rightarrow> None)"

text \<open>
  \<open>replace\<close> with the \<open>g\<close> and \<open>m\<close> flags walks the text from left to right. \<open>^\<close> holds
  at the start of the text and behind a line terminator (\<open>atLineStart\<close>). Where the
  pattern matches, the match is replaced and the walk goes on behind it, in the middle
  of a line; elsewhere one code unit is copied.
\<close>

definition bullet :: jsstring where
  "bullet = [0x2022, 0x20]"

function withBullets_from :: "bool \<Rightarrow> jsstring \<Rightarrow> jsstring" where
  "withBullets_from atLineStart [] = []"
| "withBullets_from atLineStart (c # cs) =
     (case (if atLineStart then bulletMatch (c # cs) else None) of
        Some (g, rest) \<Rightarrow> bullet @ g @ withBullets_from False rest
      | None \<Rightarrow> c # withBullets_from (isLineTerminator c) cs)"
  by pat_completeness auto
termination
proof (relation "measure (\<lambda>(b, s). length s)")
  fix atLineStart :: bool and c :: jschar and cs x2 g rest
  assume m: "(if atLineStart then bulletMatch (c # cs) else None) = Some x2"
    and x2: "(g, rest) = x2"
  from m x2 have "bulletMatch (c # cs) = Some (g, rest)"
    by (simp split: if_splits)
  then obtain d w r where dw: "dropWhile isWhiteSpace (c # cs) = d # w # r"
    and rl: "restOfLine r = Some (g, rest)"
    by (auto simp: bulletMatch_def split: list.splits if_splits)
  from rl have "length rest \<le> length r"
    by (auto simp: restOfLine_def length_dropWhile_le split: if_splits)
  moreover have "length (d # w # r) \<le> length (c # cs)"
    unfolding dw [symmetric] by (rule length_dropWhile_le)
  ultimately show "((False, rest), (atLineStart, c # cs)) \<in> measure (\<lambda>(b, s). length s)"
    by simp
qed simp_all

definition withBullets :: "jsstring \<Rightarrow> jsstring" where
  "withBullets s = withBullets_from True s"

function withHeadings_from :: "bool \<Rightarrow> jsstring \<Rightarrow> jsstring" where
  "withHeadings_from atLineStart [] = []"
| "withHeadings_from atLineStart (c # cs) =
     (case (if atLineStart then headingMatch (c # cs) else None) of
        Some (heading, rest) \<Rightarrow> toUpperCase heading @ withHeadings_from False rest
      | None \<Rightarrow> c # withHeadings_from (isLineTerminator c) cs)"
  by pat_completeness auto
termination
proof (relation "measure (\<lambda>(b, s). length s)")
  fix atLineStart :: bool and c :: jschar and cs x2 heading rest
  assume m: "(if atLineStart then headingMatch (c # cs) else None) = Some x2"
    and x2: "(heading, rest) = x2"
  from m x2 have "headingMatch (c # cs) = Some (heading, rest)"
    by (simp split: if_splits)
  then obtain w r where dw: "dropWhile (\<lambda>c. c = 0x23) (c # cs) = w # r"
    and rl: "restOfLine r = Some (heading, rest)"
    by (auto simp: headingMatch_def split: list.splits if_splits)
  from rl have "length rest \<le> length r"
    by (auto simp: restOfLine_def length_dropWhile_le split: if_splits)
  moreover have "length (w # r) \<le> length (c # cs)"
    unfolding dw [symmetric] by (rule length_dropWhile_le)
  ultimately show "((False, rest), (atLineStart, c # cs)) \<in> measure (\<lambda>(b, s). length s)"
    by simp
qed simp_all

definition withHeadings :: "jsstring \<Rightarrow> jsstring" where
  "withHeadings s = withHeadings_from True s"

text \<open>The text after the three rewriting steps, before the question marks are looked at.\<close>

definition rewritten :: "jsstring \<Rightarrow> jsstring" where
  "rewritten response = withHeadings (withBullets (withParagraphs response))"

text \<open>\<open>text.match(/\?/g)\<close>: \<open>null\<close> when there is no question mark, else the list of
  the matches.\<close>

definition questionMarks :: "jsstring \<Rightarrow> jsstring list option" where
  "questionMarks s =
     (if filter (\<lambda>c. c = 0x3F) s = [] then None
      else Some (map (\<lambda>c. [c]) (filter (\<lambda>c. c = 0x3F) s)))"

definition formatNotionStyleResponse :: "jsstring \<Rightarrow> jsstring" where
  "formatNotionStyleResponse response =
     (let text = rewritten response in
      case questionMarks text of
        Some qs \<Rightarrow>
          if length qs > 1
          then substring0 text (indexOf text 0x3F + 1)
          else text
      | None \<Rightarrow> text)"

text \<open>
  Two notions for reasoning about the paragraph step: the length of the run of line
  feeds a text starts with, and texts in which no run of line feeds is longer than two.
\<close>

definition leadingLineFeeds :: "jsstring \<Rightarrow> nat" where
  "leadingLineFeeds s = length (takeWhile (\<lambda>d. d = 0x0A) s)"

fun compact :: "jsstring \<Rightarrow> bool" where
  "compact [] = True"
| "compact (c # cs) = (leadingLineFeeds (c # cs) \<le> 2 \<and> compact cs)"

section \<open>Prompt Builder\<close>

text \<open>
  The object handed to the service is the lead spread into a new object, with \<open>uiInfo\<close>
  (when a UI size came with the request) and the flag \<open>oneQuestionAtATime\<close> added.
\<close>

record uiInfo =
  width :: jsval
  height :: jsval
  isNotionStyle :: bool

record contextWithUiInfo = lead +
  uiInfo :: "uiInfo option"
  oneQuestionAtATime :: bool

record chat_message =
  role :: string
  content :: jsstring

definition notionGuidelines :: jsstring where
  "notionGuidelines =
     str ''\<newline>\<newline>You are displayed in a Notion-like interface. Format your responses accordingly with these guidelines:\<newline>''
     @ str ''- Use clean paragraph breaks for readability\<newline>''
     @ str ''- Use bullet points ('' @ [0x2022] @ str '') for lists\<newline>''
     @ str ''- You can use simple formatting like UPPERCASE for emphasis\<newline>''
     @ str ''- Keep responses concise and well-structured\<newline>''
     @ str ''- Organize information in a clear, hierarchical manner\<newline>''"

text \<open>The instruction to ask one question at a time, appended to every prompt.\<close>

definition singleQuestionInstruction :: jsstring where
  "singleQuestionInstruction =
     str ''\<newline>\<newline>IMPORTANT INSTRUCTION: Ask only ONE question at a time. ''
     @ str ''Wait for the user to respond before asking the next question. ''
     @ str ''Do not ask multiple questions in a single response. ''
     @ str ''Focus on getting a complete answer to one question before moving to the next topic. ''
     @ str ''This creates a more natural conversation flow.''
     @ str ''\<newline>\<newline>Even if you have multiple questions in mind, only ask the most important one first. ''
     @ str ''After the user responds, you can ask the next question based on their response. ''
     @ str ''This sequential approach helps create a more engaging and personalized conversation experience.''
     @ str ''\<newline>\<newline>Remember: ONE QUESTION PER RESPONSE - NO EXCEPTIONS.''"

text \<open>The restatement appended when \<open>oneQuestionAtATime\<close> is set; it opens with the
  warning sign U+26A0 U+FE0F.\<close>

definition userPreference :: jsstring where
  "userPreference =
     str ''\<newline>\<newline>'' @ [0x26A0, 0xFE0F]
     @ str '' USER PREFERENCE: The user has specifically requested that you ask only ONE question at a time. ''
     @ str ''This is extremely important. ''
     @ str ''Never combine multiple questions in a single response. ''
     @ str ''After each user reply, choose the next most logical question based on their answer.''"

definition clientFacts :: "contextWithUiInfo \<Rightarrow> jsstring" where
  "clientFacts leadInfo =
     str ''Here is what you know about the client: ''
     @ (if truthy (name leadInfo)
        then str ''Their name is '' @ interpolate (name leadInfo) @ str ''. '' else [])
     @ (if truthy (budget leadInfo)
        then str ''Their budget is '' @ interpolate (budget leadInfo) @ str ''. '' else [])
     @ (if truthy (preferredLocation leadInfo)
        then str ''They are interested in properties in ''
             @ interpolate (preferredLocation leadInfo) @ str ''. '' else [])
     @ (if truthy (propertyType leadInfo)
        then str ''They are looking for a '' @ interpolate (propertyType leadInfo) @ str ''. ''
        else [])
     @ str ''Use this information to provide personalized assistance. ''
     @ (case uiInfo leadInfo of
          Some ui \<Rightarrow> if isNotionStyle ui then notionGuidelines else []
        | None \<Rightarrow> [])"

text \<open>\<open>createSystemMessage(leadInfo)\<close>; \<open>None\<close> is a \<open>null\<close> or missing \<open>leadInfo\<close>.
  \<open>promptHead\<close> is the value of \<open>context\<close> before the instruction is appended.\<close>

definition promptHead :: "contextWithUiInfo option \<Rightarrow> jsstring" where
  "promptHead leadInfo =
     str ''You are a helpful real estate assistant. ''
     @ (case leadInfo of Some li \<Rightarrow> clientFacts li | None \<Rightarrow> [])
     @ str ''Be friendly, professional, and helpful. Your goal is to collect information about their real estate needs and preferences.''"

definition createSystemMessage :: "contextWithUiInfo option \<Rightarrow> chat_message" where
  "createSystemMessage leadInfo =
     \<lparr> role = ''system'',
       content =
         promptHead leadInfo
         @ singleQuestionInstruction
         @ (case leadInfo of
              Some li \<Rightarrow> if oneQuestionAtATime li then userPreference else []
            | None \<Rightarrow> []) \<rparr>"

section \<open>Completion Client\<close>

text \<open>\<open>formatMessageHistory\<close>: the last ten turns, each with its role.\<close>

definition formatMessageHistory :: "turn list \<Rightarrow> chat_message list" where
  "formatMessageHistory history =
     (if history = [] then []
      else map (\<lambda>msg. \<lparr> role = (if sender msg = str ''user'' then ''user'' else ''assistant''),
                         content = message msg \<rparr>)
               (drop (length history - 10) history))"

text \<open>
  What \<open>await axios.post(...)\<close> can give: a response (its \<open>data\<close>), or an error that
  carries a response with a status outside 2xx, an error that carries only the request
  (nothing came back), or an error raised while the request was set up. The remote
  endpoint is a parameter of the model: a function from the messages sent to the outcome.
\<close>

datatype axios_outcome =
    Resolved jsval
  | RejectedWithResponse nat jsval
  | RejectedNoResponse
  | RejectedInSetup

datatype error =
    ApiKeyConfigurationError
  | InvalidApiResponseStructure
  | AxiosError axios_outcome
  | TypeError

type_synonym endpoint = "chat_message list \<Rightarrow> axios_outcome"

text \<open>The body of the \<open>try\<close> block of \<open>MistralService.generateResponse\<close>: every
  \<open>throw\<close> and every rejection is an \<open>Inl\<close>.\<close>

text \<open>The \<open>messages\<close> of the request: the system message, the formatted history, the
  current user message.\<close>

definition requestMessages ::
  "jsstring \<Rightarrow> contextWithUiInfo option \<Rightarrow> turn list \<Rightarrow> chat_message list"
where
  "requestMessages userMessage leadInfo history =
     createSystemMessage leadInfo # formatMessageHistory history
     @ [\<lparr> role = ''user'', content = userMessage \<rparr>]"

text \<open>The check of the response structure: the condition under which the source throws
  \<open>Invalid API response structure\<close>.\<close>

definition invalidStructure :: "jsval \<Rightarrow> bool" where
  "invalidStructure data \<longleftrightarrow>
     \<not> truthyVal data
     \<or> \<not> truthyVal (getField data ''choices'')
     \<or> \<not> truthyVal (getFirst (getField data ''choices''))
     \<or> \<not> truthyVal (getField (getFirst (getField data ''choices'')) ''message'')"

definition requestCompletion ::
  "jsstring option \<Rightarrow> endpoint \<Rightarrow> jsstring \<Rightarrow> contextWithUiInfo option \<Rightarrow> turn list \<Rightarrow> error + jsval"
where
  "requestCompletion apiKey post userMessage leadInfo history =
     (if \<not> truthy apiKey then Inl ApiKeyConfigurationError
      else
        case post (requestMessages userMessage leadInfo history) of
          Resolved data \<Rightarrow>
            if invalidStructure data then Inl InvalidApiResponseStructure
            else Inr (getField (getField (getFirst (getField data ''choices'')) ''message'')
                        ''content'')
        | failure \<Rightarrow> Inl (AxiosError failure))"

definition fallbackNotice :: jsstring where
  "fallbackNotice =
     str ''I'm sorry, I'm having trouble connecting to my AI service right now. How else can I help you with your property search?''"

text \<open>The whole method: the \<open>catch\<close> block logs the error and returns the notice, so
  the promise is fulfilled on every path.\<close>

definition MistralService_generateResponse ::
  "jsstring option \<Rightarrow> endpoint \<Rightarrow> jsstring \<Rightarrow> contextWithUiInfo option \<Rightarrow> turn list \<Rightarrow> error + jsval"
where
  "MistralService_generateResponse apiKey post userMessage leadInfo history =
     (case requestCompletion apiKey post userMessage leadInfo history of
        Inr text \<Rightarrow> Inr text
      | Inl e \<Rightarrow> Inr (JStr fallbackNotice))"

section \<open>Generation Orchestrator\<close>

text \<open>
  \<open>formatNotionStyleResponse\<close> applied to whatever the service returned: only a string
  has a \<open>replace\<close> method, on any other value the first line raises a \<open>TypeError\<close>.
\<close>

definition formatReply :: "jsval \<Rightarrow> error + jsstring" where
  "formatReply v = (case v of JStr s \<Rightarrow> Inr (formatNotionStyleResponse s) | _ \<Rightarrow> Inl TypeError)"

text \<open>
  \<open>{ ...leadInfo }\<close> for a plain object \<open>leadInfo\<close>, whose attributes are its own
  properties. (A Mongoose document, which \<open>processMessage\<close> passes, keeps its attributes
  behind accessors, and its spread copies none of them; the difference is in the
  attributes that the prompt names, which enter the request only.)
\<close>

definition buildContext :: "lead \<Rightarrow> jsval \<Rightarrow> contextWithUiInfo" where
  "buildContext leadInfo uiSize =
     lead.extend leadInfo
       (contextWithUiInfo.fields
          (if truthyVal uiSize
           then Some \<lparr> width = getField uiSize ''width'', height = getField uiSize ''height'',
                       isNotionStyle = True \<rparr>
           else None)
          True)"

text \<open>\<open>generateResponse\<close> of the controller: the \<open>try\<close> block, and the \<open>catch\<close>
  block that answers with the template.\<close>

definition generateResponse ::
  "jsstring option \<Rightarrow> endpoint \<Rightarrow> jsstring \<Rightarrow> lead \<Rightarrow> turn list \<Rightarrow> jsval \<Rightarrow> jsstring"
where
  "generateResponse apiKey post msg leadInfo history uiSize =
     (case MistralService_generateResponse apiKey post msg
             (Some (buildContext leadInfo uiSize)) history of
        Inl e \<Rightarrow> generateTemplateResponse msg leadInfo
      | Inr response \<Rightarrow>
          (case formatReply response of
             Inl e \<Rightarrow> generateTemplateResponse msg leadInfo
           | Inr reply \<Rightarrow> reply))"

section \<open>Processing a message\<close>

text \<open>
  The four assignments of \<open>processMessage\<close> that copy the extracted attributes into the
  lead, each guarded by the truthiness of the extracted value. The attributes are string
  paths declared with \<open>trim: true\<close> in \<open>models/Lead.js\<close>, so what an assignment stores is
  the trimmed value (\<open>setString\<close>).
\<close>

definition setString :: "jsstring option \<Rightarrow> jsstring option" where
  "setString v = map_option trim v"

definition mergeExtractedInfo :: "info \<Rightarrow> lead \<Rightarrow> lead" where
  "mergeExtractedInfo extractedInfo l =
     (let l1 = (if truthy (info_name extractedInfo)
                then l\<lparr> name := setString (info_name extractedInfo) \<rparr> else l);
          l2 = (if truthy (info_budget extractedInfo)
                then l1\<lparr> budget := setString (info_budget extractedInfo) \<rparr> else l1);
          l3 = (if truthy (info_preferredLocation extractedInfo)
                then l2\<lparr> preferredLocation := setString (info_preferredLocation extractedInfo) \<rparr>
                else l2)
      in if truthy (info_propertyType extractedInfo)
         then l3\<lparr> propertyType := setString (info_propertyType extractedInfo) \<rparr> else l3)"

definition pushTurn :: "jsstring \<Rightarrow> jsstring \<Rightarrow> lead \<Rightarrow> lead" where
  "pushTurn who txt l =
     l\<lparr> messageHistory := messageHistory l @ [\<lparr> sender = who, message = txt \<rparr>] \<rparr>"

text \<open>
  \<open>processMessage\<close> from the extraction to the lead that is saved, for a message that is
  present and a lead that was found or created. \<open>timedOut\<close> says that the 15-second timer
  won the race against \<open>generateResponse\<close>. The result is the lead handed to \<open>save\<close> and
  the reply.
\<close>

definition processMessage ::
  "jsstring option \<Rightarrow> endpoint \<Rightarrow> bool \<Rightarrow> jsstring \<Rightarrow> jsval \<Rightarrow> lead \<Rightarrow> lead \<times> jsstring"
where
  "processMessage apiKey post timedOut msg uiSize l =
     (let extractedInfo = extractUserInfo msg;
          l1 = pushTurn (str ''user'') msg (mergeExtractedInfo extractedInfo l);
          botResponse =
            (if timedOut then generateTemplateResponse msg l1
             else generateResponse apiKey post msg l1 (messageHistory l1) uiSize)
      in (pushTurn (str ''bot'') botResponse l1, botResponse))"

section \<open>Failure modes and sample inputs\<close>

text \<open>
  The condition under which the \<open>try\<close> block of the service ends in its \<open>catch\<close> block:
  the API key is missing or empty, the request is rejected (a status outside 2xx, no
  response, or an error while the request was set up), or the response fails the
  structure check. That check looks for the data, the choices, the first choice and its
  message; it does not look at the content of the message, so a response whose message
  has no text content is not among these failures.
\<close>

definition tryBlockThrows :: "jsstring option \<Rightarrow> axios_outcome \<Rightarrow> bool" where
  "tryBlockThrows apiKey outcome \<longleftrightarrow>
     \<not> truthy apiKey
     \<or> (case outcome of Resolved data \<Rightarrow> invalidStructure data | _ \<Rightarrow> True)"

text \<open>An endpoint that never answers, one that answers with an empty list of choices,
  one that answers with status 500, and a lead with all four attributes.\<close>

definition unreachableEndpoint :: endpoint where
  "unreachableEndpoint messages = RejectedNoResponse"

definition malformedEndpoint :: endpoint where
  "malformedEndpoint messages = Resolved (JObj [(''choices'', JArr [])])"

definition failingEndpoint :: endpoint where
  "failingEndpoint messages = RejectedWithResponse 500 JNull"

text \<open>An endpoint whose response passes the structure check although its message
  carries no content.\<close>

definition contentlessEndpoint :: endpoint where
  "contentlessEndpoint messages =
     Resolved (JObj [(''choices'', JArr [JObj [(''message'', JObj [])]])])"

definition aliceLead :: lead where
  "aliceLead = \<lparr> name = Some (str ''Alice''), phone = None, budget = Some (str ''500,000''),
                 preferredLocation = Some (str ''Pune''), propertyType = Some (str ''villa''),
                 messageHistory = [] \<rparr>"

text \<open>The attribute texts of a snapshot that the prompt can quote, and a snapshot whose
  name is itself the text of the restatement, with the flag not set.\<close>

definition attributeValues :: "contextWithUiInfo \<Rightarrow> jsstring list" where
  "attributeValues c =
     concat (map (\<lambda>v. case v of None \<Rightarrow> [] | Some s \<Rightarrow> [s])
       [name c, budget c, preferredLocation c, propertyType c])"

definition quotingContext :: contextWithUiInfo where
  "quotingContext =
     \<lparr> name = Some userPreference, phone = None, budget = None, preferredLocation = None,
       propertyType = None, messageHistory = [], uiInfo = None, oneQuestionAtATime = False \<rparr>"

section \<open>Evaluation\<close>

lemmas eval_defs =
  str_def truthy_def trim_def toLowerCase_def toUpperCase_def lowerChar_def upperChar_def
  isLetter_def isDigit_def isWhiteSpace_def isLineTerminator_def
  isNameChar_def isLocationChar_def isBudgetChar_def

lemmas extract_defs =
  extractUserInfo_def nameMatch_def nameMatchAt_def budgetMatch_def locationMatch_def nameTriggers_def
  budgetTriggers_def locationTriggers_def nameTail_def budgetTail_def locationTail_def
  trimmedGroup_def propertyTypes_def

lemmas format_defs =
  formatNotionStyleResponse_def rewritten_def withBullets_def withHeadings_def
  bulletMatch_def headingMatch_def restOfLine_def questionMarks_def indexOf_def substring0_def
  bullet_def

section \<open>The lead after a message\<close>

text \<open>Trimming is idempotent: a trimmed text neither starts nor ends with white space.\<close>

lemma dropWhile_stable: "xs = [] \<or> \<not> P (hd xs) \<Longrightarrow> dropWhile P xs = xs"
  by (cases xs) auto

lemma trim_ends:
  "trim s = [] \<or> (\<not> isWhiteSpace (hd (trim s)) \<and> \<not> isWhiteSpace (last (trim s)))"
proof (cases "trim s = []")
  case True
  then show ?thesis by simp
next
  case False
  define a where "a = dropWhile isWhiteSpace s"
  define b where "b = dropWhile isWhiteSpace (rev a)"
  have t: "trim s = rev b" by (simp add: trim_def a_def b_def)
  with False have b: "b \<noteq> []" by simp
  then have hb: "\<not> isWhiteSpace (hd b)"
    unfolding b_def by (rule hd_dropWhile)
  have a: "a \<noteq> []"
  proof
    assume "a = []"
    then have "b = []" by (simp add: b_def)
    with b show False by contradiction
  qed
  then have ha: "\<not> isWhiteSpace (hd a)"
    unfolding a_def by (rule hd_dropWhile)
  have "rev a = takeWhile isWhiteSpace (rev a) @ b"
    by (simp add: b_def)
  with b have "last (rev a) = last b" by (metis last_appendR)
  with a have lb: "last b = hd a" by (simp add: last_rev)
  from b have "hd (trim s) = last b" and "last (trim s) = hd b"
    by (simp_all add: t hd_rev last_rev)
  with ha hb lb show ?thesis by simp
qed

lemma trim_stable:
  assumes "t = [] \<or> (\<not> isWhiteSpace (hd t) \<and> \<not> isWhiteSpace (last t))"
  shows "trim t = t"
proof (cases "t = []")
  case True
  then show ?thesis by (simp add: trim_def)
next
  case False
  with assms have h: "\<not> isWhiteSpace (hd t)" and l: "\<not> isWhiteSpace (last t)" by simp_all
  from False h have "dropWhile isWhiteSpace t = t" by (simp add: dropWhile_stable)
  moreover from False l have "dropWhile isWhiteSpace (rev t) = rev t"
    by (simp add: dropWhile_stable hd_rev)
  ultimately show ?thesis by (simp add: trim_def)
qed

lemma trim_trim: "trim (trim s) = trim s"
  by (rule trim_stable) (rule trim_ends)

lemma setString_trimmedGroup: "setString (trimmedGroup m) = trimmedGroup m"
  by (cases m) (simp_all add: setString_def trimmedGroup_def trim_trim)

lemma firstIncluded_member: "firstIncluded ts msg = Some t \<Longrightarrow> t \<in> set ts"
  by (induction ts) (auto split: if_splits)

lemma trim_propertyTypes: "t \<in> set propertyTypes \<Longrightarrow> trim t = t"
  by (auto simp: propertyTypes_def eval_defs)

lemma setString_firstIncluded:
  "setString (firstIncluded propertyTypes msg) = firstIncluded propertyTypes msg"
proof (cases "firstIncluded propertyTypes msg")
  case None
  then show ?thesis by (simp add: setString_def)
next
  case (Some t)
  then have "trim t = t" by (intro trim_propertyTypes firstIncluded_member)
  with Some show ?thesis by (simp add: setString_def)
qed

lemma setString_extractUserInfo:
  "setString (info_name (extractUserInfo msg)) = info_name (extractUserInfo msg)"
  "setString (info_budget (extractUserInfo msg)) = info_budget (extractUserInfo msg)"
  "setString (info_preferredLocation (extractUserInfo msg)) =
     info_preferredLocation (extractUserInfo msg)"
  "setString (info_propertyType (extractUserInfo msg)) = info_propertyType (extractUserInfo msg)"
  by (simp_all add: extractUserInfo_def setString_trimmedGroup setString_firstIncluded)

lemma mergeExtractedInfo_fields:
  "name (mergeExtractedInfo e l) =
     (if truthy (info_name e) then setString (info_name e) else name l)"
  "budget (mergeExtractedInfo e l) =
     (if truthy (info_budget e) then setString (info_budget e) else budget l)"
  "preferredLocation (mergeExtractedInfo e l) =
     (if truthy (info_preferredLocation e) then setString (info_preferredLocation e)
      else preferredLocation l)"
  "propertyType (mergeExtractedInfo e l) =
     (if truthy (info_propertyType e) then setString (info_propertyType e) else propertyType l)"
  by (simp_all add: mergeExtractedInfo_def Let_def)

lemma processMessage_fields:
  "name (fst (processMessage apiKey post timedOut msg uiSize l)) =
     name (mergeExtractedInfo (extractUserInfo msg) l)"
  "budget (fst (processMessage apiKey post timedOut msg uiSize l)) =
     budget (mergeExtractedInfo (extractUserInfo msg) l)"
  "preferredLocation (fst (processMessage apiKey post timedOut msg uiSize l)) =
     preferredLocation (mergeExtractedInfo (extractUserInfo msg) l)"
  "propertyType (fst (processMessage apiKey post timedOut msg uiSize l)) =
     propertyType (mergeExtractedInfo (extractUserInfo msg) l)"
  by (simp_all add: processMessage_def pushTurn_def Let_def)

lemma extract_sample:
  "extractUserInfo (str ''my name is Bob'') =
     \<lparr> info_name = Some (str ''Bob''), info_budget = None, info_preferredLocation = None,
       info_propertyType = None \<rparr>"
  by (simp add: extract_defs eval_defs)

text \<open>
  Claim C10. In \<open>processMessage\<close>, for each of the attributes name, budget,
  preferredLocation and propertyType: when the extractor's value for the attribute is
  absent or empty, the lead that is saved has the value it had before; when the
  extractor's value is non-empty, the saved lead has the extracted value (the extractor's
  values are trimmed already, so the trimming of the schema stores them unchanged). So an
  attribute that is populated is never replaced by an empty value.
\<close>

theorem processMessage_merge:
  fixes l :: lead and msg :: jsstring and apiKey :: "jsstring option" and post :: endpoint
    and timedOut :: bool and uiSize :: jsval
  defines "e \<equiv> extractUserInfo msg"
    and "l' \<equiv> fst (processMessage apiKey post timedOut msg uiSize l)"
  shows "(\<not> truthy (info_name e) \<longrightarrow> name l' = name l)
       \<and> (truthy (info_name e) \<longrightarrow> name l' = info_name e)
       \<and> (\<not> truthy (info_budget e) \<longrightarrow> budget l' = budget l)
       \<and> (truthy (info_budget e) \<longrightarrow> budget l' = info_budget e)
       \<and> (\<not> truthy (info_preferredLocation e) \<longrightarrow> preferredLocation l' = preferredLocation l)
       \<and> (truthy (info_preferredLocation e) \<longrightarrow> preferredLocation l' = info_preferredLocation e)
       \<and> (\<not> truthy (info_propertyType e) \<longrightarrow> propertyType l' = propertyType l)
       \<and> (truthy (info_propertyType e) \<longrightarrow> propertyType l' = info_propertyType e)
       \<and> (truthy (name l) \<longrightarrow> truthy (name l'))
       \<and> (truthy (budget l) \<longrightarrow> truthy (budget l'))
       \<and> (truthy (preferredLocation l) \<longrightarrow> truthy (preferredLocation l'))
       \<and> (truthy (propertyType l) \<longrightarrow> truthy (propertyType l'))"
  unfolding e_def l'_def
  by (simp add: processMessage_fields mergeExtractedInfo_fields setString_extractUserInfo)

theorem processMessage_merge_witness:
  "truthy (info_name (extractUserInfo (str ''my name is Bob'')))
   \<and> \<not> truthy (info_budget (extractUserInfo (str ''my name is Bob'')))
   \<and> truthy (budget aliceLead)
   \<and> name (fst (processMessage None unreachableEndpoint False (str ''my name is Bob'')
                  JUndefined aliceLead)) = Some (str ''Bob'')
   \<and> budget (fst (processMessage None unreachableEndpoint False (str ''my name is Bob'')
                    JUndefined aliceLead)) = Some (str ''500,000'')"
proof -
  have t: "truthy (info_name (extractUserInfo (str ''my name is Bob'')))"
    and b: "\<not> truthy (info_budget (extractUserInfo (str ''my name is Bob'')))"
    and n: "info_name (extractUserInfo (str ''my name is Bob'')) = Some (str ''Bob'')"
    by (simp_all add: extract_sample) (simp_all add: truthy_def str_def)
  have a: "truthy (budget aliceLead)" "budget aliceLead = Some (str ''500,000'')"
    by (simp_all add: aliceLead_def truthy_def str_def)
  from t b n a
    processMessage_merge [of "str ''my name is Bob''" None unreachableEndpoint False
      JUndefined aliceLead]
  show ?thesis by simp
qed

section \<open>Failures of the remote call\<close>

text \<open>Each failure mode makes the \<open>try\<close> block throw, and nothing else does; some
  bodies that fail the structure check, and one that passes it.\<close>

lemma tryBlockThrows_modes:
  "tryBlockThrows None outcome"
  "tryBlockThrows (Some []) outcome"
  "tryBlockThrows apiKey (RejectedWithResponse status body)"
  "tryBlockThrows apiKey RejectedNoResponse"
  "tryBlockThrows apiKey RejectedInSetup"
  "invalidStructure data \<Longrightarrow> tryBlockThrows apiKey (Resolved data)"
  by (simp_all add: tryBlockThrows_def truthy_def)

lemma tryBlockThrows_iff:
  "tryBlockThrows apiKey (post (requestMessages msg li h)) \<longleftrightarrow>
     isl (requestCompletion apiKey post msg li h)"
  by (auto simp: tryBlockThrows_def requestCompletion_def split: axios_outcome.splits)

lemma invalidStructure_samples:
  "invalidStructure JNull"
  "invalidStructure (JStr (str ''Bad Gateway''))"
  "invalidStructure (JObj [])"
  "invalidStructure (JObj [(''choices'', JArr [])])"
  "invalidStructure (JObj [(''choices'', JArr [JObj []])])"
  "\<not> invalidStructure (JObj [(''choices'', JArr [JObj [(''message'', JObj [(''content'', JStr (str ''Hi''))])]])])"
  "\<not> invalidStructure (JObj [(''choices'', JArr [JObj [(''message'', JObj [])]])])"
  by (simp_all add: invalidStructure_def str_def)

lemma service_result:
  "MistralService_generateResponse apiKey post msg li h =
     (if tryBlockThrows apiKey (post (requestMessages msg li h))
      then Inr (JStr fallbackNotice)
      else requestCompletion apiKey post msg li h)"
  by (auto simp: tryBlockThrows_def MistralService_generateResponse_def
      requestCompletion_def split: axios_outcome.splits)

lemma service_always_fulfils:
  "\<exists>v. MistralService_generateResponse apiKey post msg li h = Inr v"
  by (auto simp: MistralService_generateResponse_def split: sum.splits)

lemma fallbackNotice_chars:
  "0x0A \<notin> set fallbackNotice" "0x2D \<notin> set fallbackNotice" "0x23 \<notin> set fallbackNotice"
  "filter (\<lambda>c. c = 0x3F) fallbackNotice = [0x3F]"
  by (simp_all add: fallbackNotice_def str_def)

lemma fallbackNotice_steps:
  "withParagraphs fallbackNotice = fallbackNotice"
  "withBullets fallbackNotice = fallbackNotice"
  "withHeadings fallbackNotice = fallbackNotice"
  by (simp_all add: fallbackNotice_def format_defs eval_defs)

lemma format_fallbackNotice: "formatNotionStyleResponse fallbackNotice = fallbackNotice"
  by (simp add: formatNotionStyleResponse_def rewritten_def fallbackNotice_steps
      questionMarks_def fallbackNotice_chars)

lemma template_hello:
  "generateTemplateResponse (str ''hello'') newLead
     = str ''Hello! I'm your real estate assistant. May I know your name?''"
  by (simp add: generateTemplateResponse_def greetingMatch_def greetings_def newLead_def
      truthy_def str_def upperChar_def)

lemma fallbackNotice_not_greeting:
  "fallbackNotice \<noteq> str ''Hello! I'm your real estate assistant. May I know your name?''"
  by (simp add: fallbackNotice_def str_def)

text \<open>
  When the response passes the structure check, the service returns the content of the
  message as it is. If that is not a string, the formatter raises a \<open>TypeError\<close>, the
  \<open>catch\<close> block of \<open>generateResponse\<close> runs, and the reply is the template's.
\<close>

lemma orchestrator_nontext_reply:
  assumes "\<not> tryBlockThrows apiKey
             (post (requestMessages msg (Some (buildContext l uiSize)) history))"
    and "requestCompletion apiKey post msg (Some (buildContext l uiSize)) history = Inr v"
    and "\<forall>s. v \<noteq> JStr s"
  shows "generateResponse apiKey post msg l history uiSize = generateTemplateResponse msg l"
  using assms
  by (cases v) (simp_all add: generateResponse_def service_result formatReply_def)

lemma contentless_service_result:
  "MistralService_generateResponse (Some (str ''key'')) contentlessEndpoint (str ''hello'')
     (Some (buildContext newLead JUndefined)) [] = Inr JUndefined"
  by (simp add: MistralService_generateResponse_def requestCompletion_def
      contentlessEndpoint_def invalidStructure_def truthy_def str_def)

lemma orchestrator_nontext_reply_sample:
  "generateResponse (Some (str ''key'')) contentlessEndpoint (str ''hello'') newLead [] JUndefined
     = generateTemplateResponse (str ''hello'') newLead"
  by (simp add: generateResponse_def contentless_service_result formatReply_def)

text \<open>
  Claim C1, evaluated at failing inputs. With no API key the \<open>try\<close> block throws the
  configuration error, and with a key and an endpoint that answers with status 500 the
  request is rejected; in both cases \<open>MistralService.generateResponse\<close> does not
  surface the error: its promise is fulfilled with the fixed fallback notice.
\<close>

theorem completion_client_swallows_failure:
  "requestCompletion None unreachableEndpoint (str ''hello'') None []
     = Inl ApiKeyConfigurationError
   \<and> MistralService_generateResponse None unreachableEndpoint (str ''hello'') None []
       = Inr (JStr fallbackNotice)
   \<and> requestCompletion (Some (str ''key'')) failingEndpoint (str ''hello'') None []
       = Inl (AxiosError (RejectedWithResponse 500 JNull))
   \<and> MistralService_generateResponse (Some (str ''key'')) failingEndpoint (str ''hello'') None []
       = Inr (JStr fallbackNotice)"
  by (simp add: MistralService_generateResponse_def requestCompletion_def
      failingEndpoint_def truthy_def str_def)

text \<open>
  Claim C3, as amended. On every failure that the service itself detects (the API key is
  missing or empty, the request is rejected with a status outside 2xx, with no response
  or while it is set up, or the response fails the structure check of the service: no
  data, no choices, no first choice or no message) the service returns the fixed notice
  instead of failing, and the reply the orchestrator delivers is exactly that notice:
  the formatter maps the notice to itself, since none of its three rewriting steps
  changes it and it holds exactly one question mark.
\<close>

theorem orchestrator_failure_reply:
  fixes apiKey :: "jsstring option" and post :: endpoint and msg :: jsstring and l :: lead
    and uiSize :: jsval and history :: "turn list"
  defines "outcome \<equiv> post (requestMessages msg (Some (buildContext l uiSize)) history)"
  assumes "\<not> truthy apiKey
           \<or> (\<exists>status body. outcome = RejectedWithResponse status body)
           \<or> outcome = RejectedNoResponse
           \<or> outcome = RejectedInSetup
           \<or> (\<exists>data. outcome = Resolved data \<and> invalidStructure data)"
  shows "MistralService_generateResponse apiKey post msg (Some (buildContext l uiSize)) history
           = Inr (JStr fallbackNotice)
       \<and> generateResponse apiKey post msg l history uiSize = fallbackNotice
       \<and> formatNotionStyleResponse fallbackNotice = fallbackNotice
       \<and> withParagraphs fallbackNotice = fallbackNotice
       \<and> withBullets fallbackNotice = fallbackNotice
       \<and> withHeadings fallbackNotice = fallbackNotice
       \<and> count_list fallbackNotice 0x3F = 1"
proof -
  from assms have "tryBlockThrows apiKey
      (post (requestMessages msg (Some (buildContext l uiSize)) history))"
    by (auto simp: tryBlockThrows_def)
  then have s: "MistralService_generateResponse apiKey post msg (Some (buildContext l uiSize))
      history = Inr (JStr fallbackNotice)"
    by (simp add: service_result)
  have c: "count_list fallbackNotice 0x3F = 1"
    by (simp add: fallbackNotice_def str_def)
  from s have "generateResponse apiKey post msg l history uiSize = fallbackNotice"
    by (simp add: generateResponse_def formatReply_def format_fallbackNotice)
  with s c show ?thesis
    by (simp add: format_fallbackNotice fallbackNotice_steps)
qed

theorem orchestrator_failure_reply_witness:
  "failingEndpoint (requestMessages (str ''hello'') (Some (buildContext aliceLead JUndefined)) [])
     = RejectedWithResponse 500 JNull
   \<and> generateResponse (Some (str ''key'')) failingEndpoint (str ''hello'') aliceLead [] JUndefined
       = fallbackNotice
   \<and> malformedEndpoint (requestMessages (str ''hello'') (Some (buildContext aliceLead JUndefined)) [])
       = Resolved (JObj [(''choices'', JArr [])])
   \<and> invalidStructure (JObj [(''choices'', JArr [])])
   \<and> generateResponse (Some (str ''key'')) malformedEndpoint (str ''hello'') aliceLead [] JUndefined
       = fallbackNotice"
proof -
  have f: "failingEndpoint (requestMessages (str ''hello'') (Some (buildContext aliceLead JUndefined)) [])
      = RejectedWithResponse 500 JNull"
    by (simp add: failingEndpoint_def)
  have m: "malformedEndpoint (requestMessages (str ''hello'') (Some (buildContext aliceLead JUndefined)) [])
      = Resolved (JObj [(''choices'', JArr [])])"
    by (simp add: malformedEndpoint_def)
  have i: "invalidStructure (JObj [(''choices'', JArr [])])"
    by (simp add: invalidStructure_def)
  from orchestrator_failure_reply [of "Some (str ''key'')" failingEndpoint "str ''hello''"
      aliceLead JUndefined "[]"] f
  have a: "generateResponse (Some (str ''key'')) failingEndpoint (str ''hello'') aliceLead []
      JUndefined = fallbackNotice"
    by simp
  from orchestrator_failure_reply [of "Some (str ''key'')" malformedEndpoint "str ''hello''"
      aliceLead JUndefined "[]"] m i
  have b: "generateResponse (Some (str ''key'')) malformedEndpoint (str ''hello'') aliceLead []
      JUndefined = fallbackNotice"
    by simp
  from f m i a b show ?thesis by simp
qed

text \<open>
  The claim as stated fails for a malformed payload that the structure check lets
  through: the response \<open>{choices: [{message: {}}]}\<close> has no content, the service returns
  \<open>undefined\<close> rather than the notice, and the reply of the orchestrator is the greeting
  of the template.
\<close>

theorem orchestrator_failure_reply_counterexample:
  "contentlessEndpoint (requestMessages (str ''hello'') (Some (buildContext newLead JUndefined)) [])
     = Resolved (JObj [(''choices'', JArr [JObj [(''message'', JObj [])]])])
   \<and> getField (getField (getFirst (getField
         (JObj [(''choices'', JArr [JObj [(''message'', JObj [])]])]) ''choices'')) ''message'')
         ''content'' = JUndefined
   \<and> MistralService_generateResponse (Some (str ''key'')) contentlessEndpoint (str ''hello'')
         (Some (buildContext newLead JUndefined)) [] = Inr JUndefined
   \<and> generateResponse (Some (str ''key'')) contentlessEndpoint (str ''hello'') newLead [] JUndefined
       = str ''Hello! I'm your real estate assistant. May I know your name?''
   \<and> generateResponse (Some (str ''key'')) contentlessEndpoint (str ''hello'') newLead [] JUndefined
       \<noteq> fallbackNotice"
proof -
  have g: "generateResponse (Some (str ''key'')) contentlessEndpoint (str ''hello'') newLead []
      JUndefined = str ''Hello! I'm your real estate assistant. May I know your name?''"
    by (simp add: orchestrator_nontext_reply_sample template_hello)
  have e: "contentlessEndpoint (requestMessages (str ''hello'')
      (Some (buildContext newLead JUndefined)) [])
     = Resolved (JObj [(''choices'', JArr [JObj [(''message'', JObj [])]])])"
    by (simp add: contentlessEndpoint_def)
  have c: "getField (getField (getFirst (getField
         (JObj [(''choices'', JArr [JObj [(''message'', JObj [])]])]) ''choices'')) ''message'')
         ''content'' = JUndefined"
    by simp
  from g e c contentless_service_result fallbackNotice_not_greeting show ?thesis
    by simp
qed

text \<open>
  Claim C2, evaluated at a failing input. With no API key and an empty lead, the message
  \<open>hello\<close> is answered with the fallback notice of the service; the template responder
  gives the generic greeting for the same message and lead, and the two differ.
\<close>

theorem orchestrator_skips_template:
  "generateResponse None unreachableEndpoint (str ''hello'') newLead [] JUndefined = fallbackNotice
   \<and> generateTemplateResponse (str ''hello'') newLead
       = str ''Hello! I'm your real estate assistant. May I know your name?''
   \<and> generateResponse None unreachableEndpoint (str ''hello'') newLead [] JUndefined
       \<noteq> generateTemplateResponse (str ''hello'') newLead"
proof -
  have g: "generateResponse None unreachableEndpoint (str ''hello'') newLead [] JUndefined
             = fallbackNotice"
    by (simp add: generateResponse_def service_result tryBlockThrows_def truthy_def
        formatReply_def format_fallbackNotice)
  have t: "generateTemplateResponse (str ''hello'') newLead
             = str ''Hello! I'm your real estate assistant. May I know your name?''"
    by (simp add: generateTemplateResponse_def greetingMatch_def greetings_def newLead_def
        truthy_def str_def upperChar_def)
  have "fallbackNotice \<noteq> str ''Hello! I'm your real estate assistant. May I know your name?''"
    by (simp add: fallbackNotice_def str_def)
  with g t show ?thesis by simp
qed

section \<open>Template Responder with all attributes known\<close>

lemma upper_eq_iff_lower:
  "\<not> (0x41 \<le> p \<and> p \<le> 0x5A) \<Longrightarrow> (upperChar c = upperChar p) = (lowerChar c = p)"
  by (auto simp: upperChar_def lowerChar_def)

lemma matchLiteral_iff_prefix:
  "\<forall>p\<in>set ps. \<not> (0x41 \<le> p \<and> p \<le> 0x5A) \<Longrightarrow>
   (matchLiteral ps s \<noteq> None) = prefix ps (toLowerCase s)"
proof (induction ps s rule: matchLiteral.induct)
  case (3 p ps c cs)
  then show ?case by (simp add: toLowerCase_def upper_eq_iff_lower)
qed (simp_all add: toLowerCase_def)

lemma matchAlt_always:
  "(matchAlt alts (\<lambda>rest. Some ()) s \<noteq> None) = (\<exists>a\<in>set alts. matchLiteral a s \<noteq> None)"
  by (induction alts) (auto split: option.splits)

lemma greetingMatch_iff:
  "greetingMatch msg = (\<exists>g\<in>set greetings. prefix g (toLowerCase msg))"
proof -
  have "\<forall>g\<in>set greetings. \<forall>p\<in>set g. \<not> (0x41 \<le> p \<and> p \<le> 0x5A)"
    by (simp add: greetings_def str_def)
  then show ?thesis
    unfolding greetingMatch_def matchAlt_always
    by (meson matchLiteral_iff_prefix)
qed

text \<open>
  Claim C4, as amended. With name, propertyType, budget and preferredLocation all set
  (non-empty), \<open>generateTemplateResponse\<close> returns the full-summary reply for every
  message that does not begin with a greeting token (hi, hello, hey, greetings, in any
  letter case); for a message that begins with one, the greeting rule comes first and
  the reply is the personalised greeting.
\<close>

theorem template_full_summary:
  assumes "truthy (name l)" and "truthy (propertyType l)" and "truthy (budget l)"
    and "truthy (preferredLocation l)"
  shows "(\<not> (\<exists>g\<in>set greetings. prefix g (toLowerCase msg)) \<longrightarrow>
            generateTemplateResponse msg l = fullSummary l)
       \<and> ((\<exists>g\<in>set greetings. prefix g (toLowerCase msg)) \<longrightarrow>
            generateTemplateResponse msg l =
              str ''Hello '' @ interpolate (name l)
              @ str ''! How can I help you with your real estate search today?'')"
  using assms by (simp add: generateTemplateResponse_def greetingMatch_iff)

lemma aliceLead_truthy:
  "truthy (name aliceLead)" "truthy (propertyType aliceLead)" "truthy (budget aliceLead)"
  "truthy (preferredLocation aliceLead)"
  by (simp_all add: aliceLead_def truthy_def str_def)

theorem template_full_summary_witness:
  "truthy (name aliceLead) \<and> truthy (propertyType aliceLead) \<and> truthy (budget aliceLead)
   \<and> truthy (preferredLocation aliceLead)
   \<and> \<not> (\<exists>g\<in>set greetings. prefix g (toLowerCase (str ''what now?'')))
   \<and> generateTemplateResponse (str ''what now?'') aliceLead =
       str ''Thank you for providing all the details, Alice. I'll help you find villa properties in Pune within your budget of 500,000. A real estate agent will contact you soon with some great options. Is there anything else you'd like to know?''"
proof -
  have n: "\<not> (\<exists>g\<in>set greetings. prefix g (toLowerCase (str ''what now?'')))"
    by (simp add: greetings_def eval_defs)
  have f: "fullSummary aliceLead = str ''Thank you for providing all the details, Alice. I'll help you find villa properties in Pune within your budget of 500,000. A real estate agent will contact you soon with some great options. Is there anything else you'd like to know?''"
    by (simp add: fullSummary_def aliceLead_def interpolate_def str_def)
  from template_full_summary [OF aliceLead_truthy, of "str ''what now?''"] n f aliceLead_truthy
  show ?thesis by simp
qed

text \<open>
  The claim as stated fails: the message \<open>hi\<close> is answered with the greeting although
  all four attributes are set.
\<close>

theorem template_full_summary_counterexample:
  "truthy (name aliceLead) \<and> truthy (propertyType aliceLead) \<and> truthy (budget aliceLead)
   \<and> truthy (preferredLocation aliceLead)
   \<and> generateTemplateResponse (str ''hi'') aliceLead =
       str ''Hello Alice! How can I help you with your real estate search today?''
   \<and> generateTemplateResponse (str ''hi'') aliceLead \<noteq> fullSummary aliceLead"
proof -
  have g: "generateTemplateResponse (str ''hi'') aliceLead =
       str ''Hello Alice! How can I help you with your real estate search today?''"
    by (simp add: generateTemplateResponse_def greetingMatch_iff greetings_def aliceLead_def
        interpolate_def eval_defs)
  have "fullSummary aliceLead \<noteq> str ''Hello Alice! How can I help you with your real estate search today?''"
    by (simp add: fullSummary_def aliceLead_def interpolate_def str_def)
  with g aliceLead_truthy show ?thesis by simp
qed

section \<open>Property type extraction\<close>

lemma includes_js_iff_sublist: "includes_js s t = sublist t s"
  by (induction s) (auto simp: sublist_Cons_right)

lemma firstIncluded_first:
  assumes "\<exists>w\<in>set ts. sublist w (toLowerCase msg)"
  shows "\<exists>i<length ts. firstIncluded ts msg = Some (ts ! i)
           \<and> sublist (ts ! i) (toLowerCase msg)
           \<and> (\<forall>j<i. \<not> sublist (ts ! j) (toLowerCase msg))"
  using assms
proof (induction ts)
  case Nil
  then show ?case by simp
next
  case (Cons t ts)
  show ?case
  proof (cases "sublist t (toLowerCase msg)")
    case True
    then have "firstIncluded (t # ts) msg = Some ((t # ts) ! 0)
        \<and> sublist ((t # ts) ! 0) (toLowerCase msg)
        \<and> (\<forall>j<0. \<not> sublist ((t # ts) ! j) (toLowerCase msg))"
      by (simp add: includes_js_iff_sublist)
    then show ?thesis by blast
  next
    case False
    with Cons.prems have "\<exists>w\<in>set ts. sublist w (toLowerCase msg)" by auto
    from Cons.IH [OF this] obtain i where i: "i < length ts"
      "firstIncluded ts msg = Some (ts ! i)" "sublist (ts ! i) (toLowerCase msg)"
      "\<forall>j<i. \<not> sublist (ts ! j) (toLowerCase msg)" by blast
    have "\<forall>j<Suc i. \<not> sublist ((t # ts) ! j) (toLowerCase msg)"
    proof (intro allI impI)
      fix j assume "j < Suc i"
      then show "\<not> sublist ((t # ts) ! j) (toLowerCase msg)"
        using False i(4) by (cases j) auto
    qed
    with i False have "Suc i < length (t # ts) \<and> firstIncluded (t # ts) msg = Some ((t # ts) ! Suc i)
        \<and> sublist ((t # ts) ! Suc i) (toLowerCase msg)
        \<and> (\<forall>j<Suc i. \<not> sublist ((t # ts) ! j) (toLowerCase msg))"
      by (simp add: includes_js_iff_sublist)
    then show ?thesis by blast
  qed
qed

text \<open>
  Claim C6. For every message whose lower-cased text contains a word of the vocabulary,
  \<open>extractUserInfo\<close> returns as propertyType a vocabulary word that the lower-cased text
  contains, and no word earlier in the vocabulary is contained: the order of the
  vocabulary decides, not the position in the message. (Outside ASCII, only U+0130 and
  U+212A lower-case to text with an ASCII letter, \<open>i\<close> followed by U+0307 and \<open>k\<close>; neither
  can take part in an occurrence of a vocabulary word, so the ASCII case mapping of the
  model decides \<open>includes\<close> as JavaScript does.)
\<close>

theorem propertyType_first_vocabulary_match:
  assumes "\<exists>w\<in>set propertyTypes. sublist w (toLowerCase msg)"
  shows "\<exists>i<length propertyTypes.
           info_propertyType (extractUserInfo msg) = Some (propertyTypes ! i)
           \<and> sublist (propertyTypes ! i) (toLowerCase msg)
           \<and> (\<forall>j<i. \<not> sublist (propertyTypes ! j) (toLowerCase msg))"
  using firstIncluded_first [OF assms] by (simp add: extractUserInfo_def)

lemma sublist_literal: "sublist w (ps @ w @ ss)"
  by (rule sublist_appendI)

theorem propertyType_first_vocabulary_match_witness:
  "(\<exists>w\<in>set propertyTypes. sublist w (toLowerCase (str ''A VILLA or a house'')))
   \<and> info_propertyType (extractUserInfo (str ''A VILLA or a house'')) = Some (str ''house'')
   \<and> sublist (str ''villa'') (toLowerCase (str ''A VILLA or a house''))
   \<and> sublist (str ''house'') (toLowerCase (str ''A VILLA or a house''))"
proof -
  have l: "toLowerCase (str ''A VILLA or a house'') = str ''a '' @ str ''villa'' @ str '' or a house''"
    "toLowerCase (str ''A VILLA or a house'') = str ''a villa or a '' @ str ''house'' @ []"
    by (simp_all add: eval_defs)
  have v: "sublist (str ''villa'') (toLowerCase (str ''A VILLA or a house''))"
    unfolding l(1) by (rule sublist_appendI)
  have h: "sublist (str ''house'') (toLowerCase (str ''A VILLA or a house''))"
    unfolding l(2) by (rule sublist_appendI)
  have e: "\<exists>w\<in>set propertyTypes. sublist w (toLowerCase (str ''A VILLA or a house''))"
    using h by (auto simp: propertyTypes_def)
  have a: "\<not> sublist (str ''apartment'') (toLowerCase (str ''A VILLA or a house''))"
    unfolding includes_js_iff_sublist [symmetric] by (simp add: eval_defs)
  from propertyType_first_vocabulary_match [OF e] obtain i where i: "i < length propertyTypes"
    "info_propertyType (extractUserInfo (str ''A VILLA or a house'')) = Some (propertyTypes ! i)"
    "\<forall>j<i. \<not> sublist (propertyTypes ! j) (toLowerCase (str ''A VILLA or a house''))"
    "sublist (propertyTypes ! i) (toLowerCase (str ''A VILLA or a house''))"
    by blast
  have "i = 1"
  proof (rule ccontr)
    assume n: "i \<noteq> 1"
    show False
    proof (cases "i = 0")
      case True
      with i(4) a show False by (simp add: propertyTypes_def)
    next
      case False
      with n have "1 < i" by simp
      with i(3) have "\<not> sublist (propertyTypes ! 1) (toLowerCase (str ''A VILLA or a house''))"
        by blast
      with h show False by (simp add: propertyTypes_def)
    qed
  qed
  with i(2) have "info_propertyType (extractUserInfo (str ''A VILLA or a house'')) = Some (str ''house'')"
    by (simp add: propertyTypes_def)
  with e v h show ?thesis by simp
qed

section \<open>Name extraction\<close>

lemma regexSearch_hit: "m s \<noteq> None \<Longrightarrow> regexSearch m s = m s"
  by (cases s) (auto split: option.splits)

lemma regexSearch_skip:
  "\<forall>i<length pre. m (drop i (pre @ s)) = None \<Longrightarrow> regexSearch m (pre @ s) = regexSearch m s"
proof (induction pre)
  case Nil
  then show ?case by simp
next
  case (Cons p pre)
  from Cons.prems have "m (drop 0 ((p # pre) @ s)) = None" by blast
  then have here: "m (p # pre @ s) = None" by simp
  have "\<forall>i<length pre. m (drop i (pre @ s)) = None"
  proof (intro allI impI)
    fix i assume "i < length pre"
    then have "Suc i < length (p # pre)" by simp
    with Cons.prems have "m (drop (Suc i) ((p # pre) @ s)) = None" by blast
    then show "m (drop i (pre @ s)) = None" by simp
  qed
  from Cons.IH [OF this] here show ?case by simp
qed

lemma nameMatchAt_alice:
  "nameMatchAt (str ''my name is Alice'' @ post) = Some (str ''Alice'' @ takeWhile isNameChar post)"
  by (simp add: nameMatchAt_def nameTriggers_def nameTail_def eval_defs)

lemma trim_alice:
  assumes "\<forall>c\<in>set w. isWhiteSpace c"
  shows "trim (str ''Alice'' @ w) = str ''Alice''"
proof -
  have "dropWhile isWhiteSpace (rev w @ rev (str ''Alice'')) = dropWhile isWhiteSpace (rev (str ''Alice''))"
    using assms by (simp add: dropWhile_append)
  moreover have "dropWhile isWhiteSpace (str ''Alice'' @ w) = str ''Alice'' @ w"
    by (simp add: eval_defs)
  moreover have "rev (dropWhile isWhiteSpace (rev (str ''Alice''))) = str ''Alice''"
    by (simp add: eval_defs)
  ultimately show ?thesis by (simp add: trim_def)
qed

text \<open>
  Claim C5, as amended. For every message \<open>pre @ "my name is Alice" @ post\<close> in which the
  name pattern matches at no position of \<open>pre\<close> (so that this occurrence is the leftmost
  match) and in which the run of letters and white space at the start of \<open>post\<close> is white
  space only (the text ends there, or a character that is neither a letter nor white
  space follows), \<open>extractUserInfo\<close> returns the name \<open>Alice\<close>.
\<close>

theorem name_is_alice:
  assumes "\<forall>i<length pre. nameMatchAt (drop i (pre @ str ''my name is Alice'' @ post)) = None"
    and "\<forall>c\<in>set (takeWhile isNameChar post). isWhiteSpace c"
  shows "info_name (extractUserInfo (pre @ str ''my name is Alice'' @ post)) = Some (str ''Alice'')"
proof -
  have "nameMatch (pre @ str ''my name is Alice'' @ post) =
          regexSearch nameMatchAt (str ''my name is Alice'' @ post)"
    unfolding nameMatch_def using assms(1) by (rule regexSearch_skip)
  also have "\<dots> = Some (str ''Alice'' @ takeWhile isNameChar post)"
    by (simp add: regexSearch_hit nameMatchAt_alice)
  finally have m: "nameMatch (pre @ str ''my name is Alice'' @ post) =
      Some (str ''Alice'' @ takeWhile isNameChar post)" .
  have "truthy (Some (str ''Alice'' @ takeWhile isNameChar post))"
    by (simp add: truthy_def str_def)
  with m trim_alice [OF assms(2)] show ?thesis
    by (simp add: extractUserInfo_def trimmedGroup_def)
qed

theorem name_is_alice_witness:
  "takeWhile isNameChar (str ''. Thanks'') = []
   \<and> info_name (extractUserInfo (str ''Hi, '' @ str ''my name is Alice'' @ str ''. Thanks''))
       = Some (str ''Alice'')"
proof -
  have none: "nameMatchAt (drop i (str ''Hi, '' @ str ''my name is Alice'' @ str ''. Thanks'')) = None"
    if "i < length (str ''Hi, '')" for i
  proof -
    from that have "i = 0 \<or> i = 1 \<or> i = 2 \<or> i = 3" by (auto simp: str_def)
    then show ?thesis
      by (elim disjE) (simp_all add: nameMatchAt_def nameTriggers_def nameTail_def eval_defs)
  qed
  then have a: "\<forall>i<length (str ''Hi, ''). nameMatchAt (drop i (str ''Hi, '' @ str ''my name is Alice'' @ str ''. Thanks'')) = None"
    by blast
  have t: "takeWhile isNameChar (str ''. Thanks'') = []"
    by (simp add: eval_defs)
  then have b: "\<forall>c\<in>set (takeWhile isNameChar (str ''. Thanks'')). isWhiteSpace c"
    by simp
  from name_is_alice [OF a b] t show ?thesis by blast
qed

text \<open>
  The claim as stated fails: the group takes every letter and white space that follows,
  so \<open>my name is Alice Smith\<close> contains the substring and yields the name
  \<open>Alice Smith\<close>.
\<close>

theorem name_is_alice_counterexample:
  "sublist (str ''my name is Alice'') (str ''my name is Alice Smith'')
   \<and> info_name (extractUserInfo (str ''my name is Alice Smith'')) = Some (str ''Alice Smith'')
   \<and> info_name (extractUserInfo (str ''my name is Alice Smith'')) \<noteq> Some (str ''Alice'')"
proof -
  have "str ''my name is Alice Smith'' = [] @ str ''my name is Alice'' @ str '' Smith''"
    by (simp add: str_def)
  then have s: "sublist (str ''my name is Alice'') (str ''my name is Alice Smith'')"
    by (metis sublist_appendI)
  have n: "info_name (extractUserInfo (str ''my name is Alice Smith'')) = Some (str ''Alice Smith'')"
    by (simp add: extract_defs eval_defs)
  have "str ''Alice Smith'' \<noteq> str ''Alice''" by (simp add: str_def)
  with s n show ?thesis by simp
qed

section \<open>Single-question truncation\<close>

lemma restOfLine_SomeD:
  assumes "restOfLine r = Some (g, rest)"
  shows "r = g @ rest" and "g \<noteq> []" and "\<forall>x\<in>set g. \<not> isLineTerminator x"
    and "rest = [] \<or> isLineTerminator (hd rest)"
proof -
  from assms have g: "g = takeWhile (\<lambda>c. \<not> isLineTerminator c) r"
    and rest: "rest = dropWhile (\<lambda>c. \<not> isLineTerminator c) r" and ne: "g \<noteq> []"
    by (auto simp: restOfLine_def split: if_splits)
  show "r = g @ rest" by (simp add: g rest)
  show "g \<noteq> []" by (rule ne)
  show "\<forall>x\<in>set g. \<not> isLineTerminator x"
    unfolding g by (auto dest: set_takeWhileD)
  show "rest = [] \<or> isLineTerminator (hd rest)"
    unfolding rest using hd_dropWhile [of "\<lambda>c. \<not> isLineTerminator c" r] by auto
qed

lemma bulletMatch_SomeD:
  assumes "bulletMatch s = Some (g, rest)"
  obtains ws w where "s = ws @ 0x2D # w # g @ rest" and "\<forall>x\<in>set ws. isWhiteSpace x"
    and "isWhiteSpace w" and "restOfLine (g @ rest) = Some (g, rest)"
proof -
  from assms obtain d w r where dw: "dropWhile isWhiteSpace s = d # w # r"
    and d: "d = 0x2D" and w: "isWhiteSpace w" and rl: "restOfLine r = Some (g, rest)"
    by (auto simp: bulletMatch_def split: list.splits if_splits)
  have "s = takeWhile isWhiteSpace s @ dropWhile isWhiteSpace s" by simp
  with dw d restOfLine_SomeD(1) [OF rl]
  have "s = takeWhile isWhiteSpace s @ 0x2D # w # g @ rest" by simp
  moreover have "\<forall>x\<in>set (takeWhile isWhiteSpace s). isWhiteSpace x"
    by (auto dest: set_takeWhileD)
  moreover from rl restOfLine_SomeD(1) [OF rl] have "restOfLine (g @ rest) = Some (g, rest)"
    by simp
  ultimately show thesis using w that by blast
qed

lemma headingMatch_SomeD:
  assumes "headingMatch s = Some (g, rest)"
  obtains hs w where "s = hs @ w # g @ rest" and "hs \<noteq> []" and "\<forall>x\<in>set hs. x = 0x23"
    and "isWhiteSpace w" and "restOfLine (g @ rest) = Some (g, rest)"
proof -
  from assms obtain w r where ne: "takeWhile (\<lambda>c. c = 0x23) s \<noteq> []"
    and dw: "dropWhile (\<lambda>c. c = 0x23) s = w # r"
    and w: "isWhiteSpace w" and rl: "restOfLine r = Some (g, rest)"
    by (auto simp: headingMatch_def split: list.splits if_splits)
  have "s = takeWhile (\<lambda>c. c = 0x23) s @ dropWhile (\<lambda>c. c = 0x23) s" by simp
  with dw restOfLine_SomeD(1) [OF rl]
  have "s = takeWhile (\<lambda>c. c = 0x23) s @ w # g @ rest" by simp
  moreover have "\<forall>x\<in>set (takeWhile (\<lambda>c. c = 0x23) s). x = 0x23"
    by (auto dest: set_takeWhileD)
  moreover from rl restOfLine_SomeD(1) [OF rl] have "restOfLine (g @ rest) = Some (g, rest)"
    by simp
  ultimately show thesis using w ne that by blast
qed

lemma whiteSpace_not_question: "isWhiteSpace x \<Longrightarrow> x \<noteq> 0x3F"
  by (auto simp: isWhiteSpace_def isLineTerminator_def)

lemma filter_question_whiteSpace:
  "\<forall>x\<in>set ws. isWhiteSpace x \<Longrightarrow> filter (\<lambda>c. c = 0x3F) ws = []"
  by (auto simp: filter_empty_conv dest: whiteSpace_not_question)

lemma filter_question_toUpperCase:
  "filter (\<lambda>c. c = 0x3F) (toUpperCase g) = filter (\<lambda>c. c = 0x3F) g"
  by (induction g) (auto simp: toUpperCase_def upperChar_def)

lemma filter_question_withParagraphs:
  "filter (\<lambda>c. c = 0x3F) (withParagraphs s) = filter (\<lambda>c. c = 0x3F) s"
proof (induction s rule: withParagraphs.induct)
  case 1
  then show ?case by simp
next
  case (2 c cs)
  show ?case
  proof (cases "c = 0x0A \<and> takeWhile (\<lambda>d. d = 0x0A) cs \<noteq> []")
    case True
    have "filter (\<lambda>c. c = 0x3F) cs =
        filter (\<lambda>c. c = 0x3F) (takeWhile (\<lambda>d. d = 0x0A) cs @ dropWhile (\<lambda>d. d = 0x0A) cs)"
      by simp
    also have "\<dots> = filter (\<lambda>c. c = 0x3F) (dropWhile (\<lambda>d. d = 0x0A) cs)"
      unfolding filter_append by (auto simp: filter_empty_conv dest: set_takeWhileD)
    finally show ?thesis using True 2 by simp
  next
    case False
    with 2 show ?thesis by auto
  qed
qed

lemma filter_question_withBullets_from:
  "filter (\<lambda>c. c = 0x3F) (withBullets_from b s) = filter (\<lambda>c. c = 0x3F) s"
proof (induction b s rule: withBullets_from.induct)
  case (1 b)
  then show ?case by simp
next
  case (2 b c cs)
  show ?case
  proof (cases "if b then bulletMatch (c # cs) else None")
    case None
    from 2(1) [OF None] None show ?thesis by auto
  next
    case (Some m)
    obtain g rest where m: "m = (g, rest)" by (cases m)
    from Some m have bm: "bulletMatch (c # cs) = Some (g, rest)" by (simp split: if_splits)
    from bm obtain ws w where s: "c # cs = ws @ 0x2D # w # g @ rest"
      and ws: "\<forall>x\<in>set ws. isWhiteSpace x" and w: "isWhiteSpace w"
      by (rule bulletMatch_SomeD)
    from 2(2) [OF Some m [symmetric]]
    have "filter (\<lambda>c. c = 0x3F) (withBullets_from False rest) = filter (\<lambda>c. c = 0x3F) rest" .
    moreover have "filter (\<lambda>c. c = 0x3F) (c # cs) =
        filter (\<lambda>c. c = 0x3F) g @ filter (\<lambda>c. c = 0x3F) rest"
      unfolding s using filter_question_whiteSpace [OF ws] whiteSpace_not_question [OF w]
      by simp
    ultimately show ?thesis using Some m by (simp add: bullet_def)
  qed
qed

lemma filter_question_withHeadings_from:
  "filter (\<lambda>c. c = 0x3F) (withHeadings_from b s) = filter (\<lambda>c. c = 0x3F) s"
proof (induction b s rule: withHeadings_from.induct)
  case (1 b)
  then show ?case by simp
next
  case (2 b c cs)
  show ?case
  proof (cases "if b then headingMatch (c # cs) else None")
    case None
    from 2(1) [OF None] None show ?thesis by auto
  next
    case (Some m)
    obtain g rest where m: "m = (g, rest)" by (cases m)
    from Some m have hm: "headingMatch (c # cs) = Some (g, rest)" by (simp split: if_splits)
    from hm obtain hs w where s: "c # cs = hs @ w # g @ rest"
      and hs: "\<forall>x\<in>set hs. x = 0x23" and w: "isWhiteSpace w"
      by (rule headingMatch_SomeD)
    from 2(2) [OF Some m [symmetric]]
    have "filter (\<lambda>c. c = 0x3F) (withHeadings_from False rest) = filter (\<lambda>c. c = 0x3F) rest" .
    moreover have "filter (\<lambda>c. c = 0x3F) hs = []"
      using hs by (auto simp: filter_empty_conv)
    then have "filter (\<lambda>c. c = 0x3F) (c # cs) =
        filter (\<lambda>c. c = 0x3F) g @ filter (\<lambda>c. c = 0x3F) rest"
      unfolding s using whiteSpace_not_question [OF w] by simp
    ultimately show ?thesis using Some m by (simp add: filter_question_toUpperCase)
  qed
qed

lemma filter_question_rewritten:
  "filter (\<lambda>c. c = 0x3F) (rewritten t) = filter (\<lambda>c. c = 0x3F) t"
  by (simp add: rewritten_def withHeadings_def withBullets_def filter_question_withHeadings_from
      filter_question_withBullets_from filter_question_withParagraphs)

lemma take_first_occurrence:
  "q \<in> set s \<Longrightarrow> take (Suc (length (takeWhile (\<lambda>d. d \<noteq> q) s))) s = takeWhile (\<lambda>d. d \<noteq> q) s @ [q]"
  by (induction s) auto

lemma question_count: "count_list s 0x3F = length (filter (\<lambda>c. c = 0x3F) s)"
  by (induction s) auto

lemma formatNotionStyleResponse_eq:
  "formatNotionStyleResponse t =
     (if 1 < count_list t 0x3F then takeWhile (\<lambda>c. c \<noteq> 0x3F) (rewritten t) @ [0x3F]
      else rewritten t)"
proof (cases "1 < count_list t 0x3F")
  case True
  then have n: "1 < length (filter (\<lambda>c. c = 0x3F) (rewritten t))"
    by (simp add: question_count filter_question_rewritten)
  then have ne: "filter (\<lambda>c. c = 0x3F) (rewritten t) \<noteq> []" by auto
  then have mem: "0x3F \<in> set (rewritten t)" by (auto simp: filter_empty_conv)
  from n ne mem True show ?thesis
    by (simp add: formatNotionStyleResponse_def questionMarks_def indexOf_def substring0_def
        nat_add_distrib take_first_occurrence Let_def)
next
  case False
  then have "\<not> 1 < length (filter (\<lambda>c. c = 0x3F) (rewritten t))"
    by (simp add: question_count filter_question_rewritten)
  with False show ?thesis
    by (simp add: formatNotionStyleResponse_def questionMarks_def Let_def)
qed

text \<open>
  Claim C7. The three rewriting steps neither add nor remove a question mark, so the
  number of question marks of the rewritten text is that of the input. For every input
  with more than one question mark, \<open>formatNotionStyleResponse\<close> returns the rewritten
  text up to and including its first question mark: a prefix of the rewritten text that
  holds exactly one question mark, at its end. An input with no or one question mark is
  returned as rewritten, not truncated.
\<close>

theorem single_question_truncation:
  "(1 < count_list t 0x3F \<longrightarrow>
      formatNotionStyleResponse t = takeWhile (\<lambda>c. c \<noteq> 0x3F) (rewritten t) @ [0x3F]
      \<and> prefix (formatNotionStyleResponse t) (rewritten t)
      \<and> count_list (formatNotionStyleResponse t) 0x3F = 1)
   \<and> (count_list t 0x3F \<le> 1 \<longrightarrow> formatNotionStyleResponse t = rewritten t)"
proof (intro conjI impI)
  assume many: "1 < count_list t 0x3F"
  then show eq: "formatNotionStyleResponse t = takeWhile (\<lambda>c. c \<noteq> 0x3F) (rewritten t) @ [0x3F]"
    by (simp add: formatNotionStyleResponse_eq)
  from many have "filter (\<lambda>c. c = 0x3F) (rewritten t) \<noteq> []"
    by (auto simp: question_count filter_question_rewritten)
  then have mem: "0x3F \<in> set (rewritten t)" by (auto simp: filter_empty_conv)
  have "rewritten t = takeWhile (\<lambda>c. c \<noteq> 0x3F) (rewritten t) @ dropWhile (\<lambda>c. c \<noteq> 0x3F) (rewritten t)"
    by simp
  moreover from mem have "dropWhile (\<lambda>c. c \<noteq> 0x3F) (rewritten t) \<noteq> []" by simp
  then obtain r where "dropWhile (\<lambda>c. c \<noteq> 0x3F) (rewritten t) = 0x3F # r"
    using hd_dropWhile [of "\<lambda>c. c \<noteq> 0x3F" "rewritten t"]
    by (cases "dropWhile (\<lambda>c. c \<noteq> 0x3F) (rewritten t)") auto
  ultimately have "rewritten t = (takeWhile (\<lambda>c. c \<noteq> 0x3F) (rewritten t) @ [0x3F]) @ r"
    by simp
  then show "prefix (formatNotionStyleResponse t) (rewritten t)"
    unfolding eq by (metis prefixI)
  have "filter (\<lambda>c. c = 0x3F) (takeWhile (\<lambda>c. c \<noteq> 0x3F) (rewritten t)) = []"
    by (auto simp: filter_empty_conv dest: set_takeWhileD)
  then show "count_list (formatNotionStyleResponse t) 0x3F = 1"
    unfolding eq by (simp add: question_count)
next
  assume "count_list t 0x3F \<le> 1"
  then show "formatNotionStyleResponse t = rewritten t"
    by (simp add: formatNotionStyleResponse_eq)
qed

theorem single_question_truncation_witness:
  "1 < count_list (str ''# Plan\<newline>Budget? Area? Both.'') 0x3F
   \<and> formatNotionStyleResponse (str ''# Plan\<newline>Budget? Area? Both.'') = str ''PLAN\<newline>Budget?''
   \<and> rewritten (str ''# Plan\<newline>Budget? Area? Both.'') = str ''PLAN\<newline>Budget? Area? Both.''
   \<and> count_list (str ''- one?'') 0x3F \<le> 1
   \<and> formatNotionStyleResponse (str ''- one?'') = [0x2022] @ str '' one?''"
proof -
  have c: "1 < count_list (str ''# Plan\<newline>Budget? Area? Both.'') 0x3F"
    "count_list (str ''- one?'') 0x3F \<le> 1"
    by (simp_all add: str_def)
  have r: "rewritten (str ''# Plan\<newline>Budget? Area? Both.'') = str ''PLAN\<newline>Budget? Area? Both.''"
    "rewritten (str ''- one?'') = [0x2022] @ str '' one?''"
    by (simp_all add: format_defs eval_defs)
  from single_question_truncation [of "str ''# Plan\<newline>Budget? Area? Both.''"] c(1) r(1)
  have "formatNotionStyleResponse (str ''# Plan\<newline>Budget? Area? Both.'') = str ''PLAN\<newline>Budget?''"
    by (simp add: str_def)
  moreover from single_question_truncation [of "str ''- one?''"] c(2) r(2)
  have "formatNotionStyleResponse (str ''- one?'') = [0x2022] @ str '' one?''"
    by simp
  ultimately show ?thesis using c r by simp
qed

section \<open>Runs of line feeds\<close>

lemma leadingLineFeeds_simps [simp]:
  "leadingLineFeeds [] = 0"
  "leadingLineFeeds (c # cs) = (if c = 0x0A then Suc (leadingLineFeeds cs) else 0)"
  by (simp_all add: leadingLineFeeds_def)

lemma leadingLineFeeds_zero_iff: "leadingLineFeeds s = 0 \<longleftrightarrow> s = [] \<or> hd s \<noteq> 0x0A"
  by (cases s) auto

lemma leadingLineFeeds_dropWhile: "leadingLineFeeds (dropWhile (\<lambda>d. d = 0x0A) s) = 0"
  by (induction s) auto

lemma leadingLineFeeds_append_le: "leadingLineFeeds x \<le> leadingLineFeeds (x @ y)"
  by (induction x) auto

lemma withParagraphs_leading_zero:
  "leadingLineFeeds s = 0 \<Longrightarrow> leadingLineFeeds (withParagraphs s) = 0"
  by (cases s) auto

lemma takeWhile_empty_iff_leading:
  "takeWhile (\<lambda>d. d = 0x0A) cs = [] \<longleftrightarrow> leadingLineFeeds cs = 0"
  by (simp add: leadingLineFeeds_def)

lemma withParagraphs_run:
  "c = 0x0A \<Longrightarrow> takeWhile (\<lambda>d. d = 0x0A) cs \<noteq> [] \<Longrightarrow>
   withParagraphs (c # cs) = 0x0A # 0x0A # withParagraphs (dropWhile (\<lambda>d. d = 0x0A) cs)"
  by simp

lemma withParagraphs_copy:
  "\<not> (c = 0x0A \<and> takeWhile (\<lambda>d. d = 0x0A) cs \<noteq> []) \<Longrightarrow>
   withParagraphs (c # cs) = c # withParagraphs cs"
  by auto

lemma withBullets_from_match:
  "(if b then bulletMatch (c # cs) else None) = Some (g, rest) \<Longrightarrow>
   withBullets_from b (c # cs) = bullet @ g @ withBullets_from False rest"
  by simp

lemma withBullets_from_copy:
  "(if b then bulletMatch (c # cs) else None) = None \<Longrightarrow>
   withBullets_from b (c # cs) = c # withBullets_from (isLineTerminator c) cs"
  by simp

lemma withHeadings_from_match:
  "(if b then headingMatch (c # cs) else None) = Some (g, rest) \<Longrightarrow>
   withHeadings_from b (c # cs) = toUpperCase g @ withHeadings_from False rest"
  by simp

lemma withHeadings_from_copy:
  "(if b then headingMatch (c # cs) else None) = None \<Longrightarrow>
   withHeadings_from b (c # cs) = c # withHeadings_from (isLineTerminator c) cs"
  by simp

lemma compact_withParagraphs: "compact (withParagraphs s)"
proof (induction s rule: withParagraphs.induct)
  case 1
  then show ?case by simp
next
  case (2 c cs)
  show ?case
  proof (cases "c = 0x0A \<and> takeWhile (\<lambda>d. d = 0x0A) cs \<noteq> []")
    case True
    from 2(1) [OF True] have "compact (withParagraphs (dropWhile (\<lambda>d. d = 0x0A) cs))" .
    moreover have "leadingLineFeeds (withParagraphs (dropWhile (\<lambda>d. d = 0x0A) cs)) = 0"
      by (rule withParagraphs_leading_zero) (rule leadingLineFeeds_dropWhile)
    ultimately show ?thesis using True by (simp add: withParagraphs_run del: withParagraphs.simps)
  next
    case False
    from 2(2) [OF False] have c: "compact (withParagraphs cs)" .
    from False have "c \<noteq> 0x0A \<or> leadingLineFeeds cs = 0"
      by (auto simp: takeWhile_empty_iff_leading)
    then have "leadingLineFeeds (c # withParagraphs cs) \<le> 2"
      by (auto simp: withParagraphs_leading_zero simp del: withParagraphs.simps)
    with c show ?thesis
      unfolding withParagraphs_copy [OF False] by (simp del: withParagraphs.simps)
  qed
qed

lemma withParagraphs_compact: "compact s \<Longrightarrow> withParagraphs s = s"
proof (induction s rule: withParagraphs.induct)
  case 1
  then show ?case by simp
next
  case (2 c cs)
  show ?case
  proof (cases "c = 0x0A \<and> takeWhile (\<lambda>d. d = 0x0A) cs \<noteq> []")
    case True
    then obtain cs' where cs: "cs = 0x0A # cs'"
      by (cases cs) (auto split: if_splits)
    from 2(3) True cs have z: "leadingLineFeeds cs' = 0" and c': "compact cs'" by auto
    from z have d: "dropWhile (\<lambda>d. d = 0x0A) cs = cs'"
      unfolding cs by (cases cs') auto
    from 2(1) [OF True] c' d have "withParagraphs cs' = cs'" by simp
    with True cs d show ?thesis
      using withParagraphs_run [of c cs] by (simp del: withParagraphs.simps)
  next
    case False
    from 2(3) have "compact cs" by simp
    from 2(2) [OF False this] have "withParagraphs cs = cs" .
    then show ?thesis
      unfolding withParagraphs_copy [OF False] by simp
  qed
qed

lemma compact_append_left: "compact (x @ y) \<Longrightarrow> compact x"
proof (induction x)
  case Nil
  then show ?case by simp
next
  case (Cons c x)
  have "leadingLineFeeds (c # x) \<le> leadingLineFeeds ((c # x) @ y)"
    by (rule leadingLineFeeds_append_le)
  with Cons show ?case by simp
qed

lemma compact_append_right: "compact (x @ y) \<Longrightarrow> compact y"
  by (induction x) auto

lemma compact_no_lineFeed_append:
  "\<forall>c\<in>set x. c \<noteq> 0x0A \<Longrightarrow> compact (x @ y) = compact y"
proof (induction x)
  case Nil
  then show ?case by simp
next
  case (Cons c x)
  then show ?case by (cases y) auto
qed

lemma lineTerminator_lineFeed: "\<not> isLineTerminator c \<Longrightarrow> c \<noteq> 0x0A"
  by (auto simp: isLineTerminator_def)

lemma upperChar_lineFeed: "upperChar c = 0x0A \<longleftrightarrow> c = 0x0A"
  by (auto simp: upperChar_def)

lemma toUpperCase_no_lineFeed:
  assumes "\<forall>c\<in>set g. \<not> isLineTerminator c"
  shows "\<forall>c\<in>set (toUpperCase g). c \<noteq> 0x0A"
proof
  fix c assume "c \<in> set (toUpperCase g)"
  then obtain d where d: "d \<in> set g" and c: "c = upperChar d"
    by (auto simp: toUpperCase_def)
  from assms d have "d \<noteq> 0x0A" by (blast dest: lineTerminator_lineFeed)
  with c show "c \<noteq> 0x0A" by (simp add: upperChar_lineFeed)
qed

lemma leading_withBullets_from:
  "leadingLineFeeds (withBullets_from b s) \<le> leadingLineFeeds s"
proof (induction b s rule: withBullets_from.induct)
  case (1 b)
  then show ?case by simp
next
  case (2 b c cs)
  show ?case
  proof (cases "if b then bulletMatch (c # cs) else None")
    case None
    from 2(1) [OF None] show ?thesis
      unfolding withBullets_from_copy [OF None] by (cases "c = 0x0A") simp_all
  next
    case (Some m)
    obtain g rest where m: "m = (g, rest)" by (cases m)
    show ?thesis
      unfolding withBullets_from_match [OF Some [unfolded m]] by (simp add: bullet_def)
  qed
qed

lemma compact_withBullets_from: "compact s \<Longrightarrow> compact (withBullets_from b s)"
proof (induction b s rule: withBullets_from.induct)
  case (1 b)
  then show ?case by simp
next
  case (2 b c cs)
  show ?case
  proof (cases "if b then bulletMatch (c # cs) else None")
    case None
    from 2(3) have cs: "compact cs" and l: "leadingLineFeeds (c # cs) \<le> 2" by simp_all
    from 2(1) [OF None cs] have r: "compact (withBullets_from (isLineTerminator c) cs)" .
    have "leadingLineFeeds (c # withBullets_from (isLineTerminator c) cs) \<le> leadingLineFeeds (c # cs)"
      using leading_withBullets_from [of "isLineTerminator c" cs] by (cases "c = 0x0A") simp_all
    with l r show ?thesis
      unfolding withBullets_from_copy [OF None] by simp
  next
    case (Some m)
    obtain g rest where m: "m = (g, rest)" by (cases m)
    from Some m have bm: "bulletMatch (c # cs) = Some (g, rest)" by (simp split: if_splits)
    from bm obtain ws w where s: "c # cs = ws @ 0x2D # w # g @ rest"
      and rl: "restOfLine (g @ rest) = Some (g, rest)"
      by (rule bulletMatch_SomeD)
    from 2(3) have "compact ((ws @ 0x2D # w # g) @ rest)" unfolding s by simp
    then have "compact rest" by (rule compact_append_right)
    from 2(2) [OF Some m [symmetric] this] have r: "compact (withBullets_from False rest)" .
    have "\<forall>c\<in>set (bullet @ g). c \<noteq> 0x0A"
      using restOfLine_SomeD(3) [OF rl] by (auto simp: bullet_def dest: lineTerminator_lineFeed)
    from compact_no_lineFeed_append [OF this] r
    have "compact (bullet @ g @ withBullets_from False rest)" by simp
    then show ?thesis
      unfolding withBullets_from_match [OF Some [unfolded m]] .
  qed
qed

lemma leading_withHeadings_from:
  "leadingLineFeeds (withHeadings_from b s) \<le> leadingLineFeeds s"
proof (induction b s rule: withHeadings_from.induct)
  case (1 b)
  then show ?case by simp
next
  case (2 b c cs)
  show ?case
  proof (cases "if b then headingMatch (c # cs) else None")
    case None
    from 2(1) [OF None] show ?thesis
      unfolding withHeadings_from_copy [OF None] by (cases "c = 0x0A") simp_all
  next
    case (Some m)
    obtain g rest where m: "m = (g, rest)" by (cases m)
    from Some m have hm: "headingMatch (c # cs) = Some (g, rest)" by (simp split: if_splits)
    from hm obtain hs w where rl: "restOfLine (g @ rest) = Some (g, rest)"
      by (rule headingMatch_SomeD)
    from restOfLine_SomeD(2) [OF rl] obtain x xs where g: "g = x # xs" by (cases g) auto
    with restOfLine_SomeD(3) [OF rl] have "x \<noteq> 0x0A" by (auto dest: lineTerminator_lineFeed)
    then have "leadingLineFeeds (toUpperCase g @ withHeadings_from False rest) = 0"
      unfolding g by (simp add: toUpperCase_def upperChar_lineFeed)
    then show ?thesis
      unfolding withHeadings_from_match [OF Some [unfolded m]] by simp
  qed
qed

lemma compact_withHeadings_from: "compact s \<Longrightarrow> compact (withHeadings_from b s)"
proof (induction b s rule: withHeadings_from.induct)
  case (1 b)
  then show ?case by simp
next
  case (2 b c cs)
  show ?case
  proof (cases "if b then headingMatch (c # cs) else None")
    case None
    from 2(3) have cs: "compact cs" and l: "leadingLineFeeds (c # cs) \<le> 2" by simp_all
    from 2(1) [OF None cs] have r: "compact (withHeadings_from (isLineTerminator c) cs)" .
    have "leadingLineFeeds (c # withHeadings_from (isLineTerminator c) cs) \<le> leadingLineFeeds (c # cs)"
      using leading_withHeadings_from [of "isLineTerminator c" cs] by (cases "c = 0x0A") simp_all
    with l r show ?thesis
      unfolding withHeadings_from_copy [OF None] by simp
  next
    case (Some m)
    obtain g rest where m: "m = (g, rest)" by (cases m)
    from Some m have hm: "headingMatch (c # cs) = Some (g, rest)" by (simp split: if_splits)
    from hm obtain hs w where s: "c # cs = hs @ w # g @ rest"
      and rl: "restOfLine (g @ rest) = Some (g, rest)"
      by (rule headingMatch_SomeD)
    from 2(3) have "compact ((hs @ w # g) @ rest)" unfolding s by simp
    then have "compact rest" by (rule compact_append_right)
    from 2(2) [OF Some m [symmetric] this] have r: "compact (withHeadings_from False rest)" .
    from compact_no_lineFeed_append [OF toUpperCase_no_lineFeed [OF restOfLine_SomeD(3) [OF rl]]] r
    have "compact (toUpperCase g @ withHeadings_from False rest)" by simp
    then show ?thesis
      unfolding withHeadings_from_match [OF Some [unfolded m]] .
  qed
qed

lemma compact_rewritten: "compact (rewritten t)"
  by (simp add: rewritten_def withHeadings_def withBullets_def compact_withHeadings_from
      compact_withBullets_from compact_withParagraphs)

lemma formatNotionStyleResponse_prefix:
  "\<exists>r. rewritten t = formatNotionStyleResponse t @ r"
proof (cases "1 < count_list t 0x3F")
  case True
  then have "filter (\<lambda>c. c = 0x3F) (rewritten t) \<noteq> []"
    by (auto simp: question_count filter_question_rewritten)
  then have "0x3F \<in> set (rewritten t)" by (auto simp: filter_empty_conv)
  then have "dropWhile (\<lambda>c. c \<noteq> 0x3F) (rewritten t) \<noteq> []" by simp
  then obtain r where "dropWhile (\<lambda>c. c \<noteq> 0x3F) (rewritten t) = 0x3F # r"
    using hd_dropWhile [of "\<lambda>c. c \<noteq> 0x3F" "rewritten t"]
    by (cases "dropWhile (\<lambda>c. c \<noteq> 0x3F) (rewritten t)") auto
  then have "rewritten t = (takeWhile (\<lambda>c. c \<noteq> 0x3F) (rewritten t) @ [0x3F]) @ r"
    using takeWhile_dropWhile_id [of "\<lambda>c. c \<noteq> 0x3F" "rewritten t"] by simp
  with True show ?thesis by (metis formatNotionStyleResponse_eq)
next
  case False
  then show ?thesis by (simp add: formatNotionStyleResponse_eq)
qed

section \<open>A second pass of the formatter\<close>

lemma compact_formatNotionStyleResponse: "compact (formatNotionStyleResponse t)"
proof -
  obtain r where "rewritten t = formatNotionStyleResponse t @ r"
    using formatNotionStyleResponse_prefix by blast
  with compact_rewritten [of t] show ?thesis
    by (metis compact_append_left)
qed

lemma question_count_formatNotionStyleResponse:
  "count_list (formatNotionStyleResponse t) 0x3F \<le> 1"
proof (cases "1 < count_list t 0x3F")
  case True
  have "filter (\<lambda>c. c = 0x3F) (takeWhile (\<lambda>c. c \<noteq> 0x3F) (rewritten t)) = []"
    by (auto simp: filter_empty_conv dest: set_takeWhileD)
  with True show ?thesis
    by (simp add: formatNotionStyleResponse_eq question_count)
next
  case False
  then have "count_list (rewritten t) 0x3F \<le> 1"
    by (simp add: question_count filter_question_rewritten)
  with False show ?thesis by (simp add: formatNotionStyleResponse_eq)
qed

lemma second_pass:
  "formatNotionStyleResponse (formatNotionStyleResponse t) =
     withHeadings (withBullets (formatNotionStyleResponse t))"
proof -
  have "\<not> 1 < count_list (formatNotionStyleResponse t) 0x3F"
    using question_count_formatNotionStyleResponse [of t] by simp
  then have "formatNotionStyleResponse (formatNotionStyleResponse t) =
      rewritten (formatNotionStyleResponse t)"
    by (simp add: formatNotionStyleResponse_eq)
  also have "\<dots> = withHeadings (withBullets (formatNotionStyleResponse t))"
    by (simp add: rewritten_def withParagraphs_compact compact_formatNotionStyleResponse)
  finally show ?thesis .
qed

lemma bulletMatch_no_hyphen: "0x2D \<notin> set s \<Longrightarrow> bulletMatch s = None"
proof (rule ccontr)
  assume n: "0x2D \<notin> set s" and "bulletMatch s \<noteq> None"
  then obtain g rest where "bulletMatch s = Some (g, rest)" by auto
  then obtain ws w where "s = ws @ 0x2D # w # g @ rest" by (rule bulletMatch_SomeD)
  with n show False by simp
qed

lemma headingMatch_no_hash: "0x23 \<notin> set s \<Longrightarrow> headingMatch s = None"
proof (rule ccontr)
  assume n: "0x23 \<notin> set s" and "headingMatch s \<noteq> None"
  then obtain g rest where "headingMatch s = Some (g, rest)" by auto
  then obtain hs w where "s = hs @ w # g @ rest" and "hs \<noteq> []" and "\<forall>x\<in>set hs. x = 0x23"
    by (rule headingMatch_SomeD)
  with n show False by (cases hs) auto
qed

lemma withBullets_from_no_hyphen: "0x2D \<notin> set s \<Longrightarrow> withBullets_from b s = s"
proof (induction s arbitrary: b)
  case Nil
  then show ?case by simp
next
  case (Cons c cs)
  from Cons.prems have "(if b then bulletMatch (c # cs) else None) = None"
    by (simp add: bulletMatch_no_hyphen)
  from withBullets_from_copy [OF this] Cons show ?case by simp
qed

lemma withHeadings_from_no_hash: "0x23 \<notin> set s \<Longrightarrow> withHeadings_from b s = s"
proof (induction s arbitrary: b)
  case Nil
  then show ?case by simp
next
  case (Cons c cs)
  from Cons.prems have "(if b then headingMatch (c # cs) else None) = None"
    by (simp add: headingMatch_no_hash)
  from withHeadings_from_copy [OF this] Cons show ?case by simp
qed

lemma set_withParagraphs: "set (withParagraphs s) \<subseteq> set s"
proof (induction s rule: withParagraphs.induct)
  case 1
  then show ?case by simp
next
  case (2 c cs)
  show ?case
  proof (cases "c = 0x0A \<and> takeWhile (\<lambda>d. d = 0x0A) cs \<noteq> []")
    case True
    from 2(1) [OF True] have "set (withParagraphs (dropWhile (\<lambda>d. d = 0x0A) cs)) \<subseteq> set cs"
      using set_dropWhileD by fastforce
    with True show ?thesis
      unfolding withParagraphs_run [OF conjunct1 [OF True] conjunct2 [OF True]] by auto
  next
    case False
    from 2(2) [OF False] show ?thesis
      unfolding withParagraphs_copy [OF False] by auto
  qed
qed

lemma rewritten_plain:
  assumes "0x2D \<notin> set t" and "0x23 \<notin> set t"
  shows "rewritten t = withParagraphs t"
proof -
  from assms set_withParagraphs [of t]
  have "0x2D \<notin> set (withParagraphs t)" and "0x23 \<notin> set (withParagraphs t)" by auto
  then show ?thesis
    by (simp add: rewritten_def withBullets_def withHeadings_def withBullets_from_no_hyphen
        withHeadings_from_no_hash)
qed

text \<open>
  Claim C8, as amended. The paragraph step and the truncation are idempotent, so a
  second pass of the formatter only applies the bullet and the heading rewrite again:
  \<open>format (format t) = withHeadings (withBullets (format t))\<close> for every text. The
  formatter is therefore idempotent exactly on the texts whose formatted result holds
  no bullet or heading line any more; every text without a hyphen and without a hash
  sign is one of them.
\<close>

theorem formatter_second_pass:
  "formatNotionStyleResponse (formatNotionStyleResponse t) =
     withHeadings (withBullets (formatNotionStyleResponse t))
   \<and> (0x2D \<notin> set t \<and> 0x23 \<notin> set t \<longrightarrow>
        formatNotionStyleResponse (formatNotionStyleResponse t) = formatNotionStyleResponse t)"
proof (intro conjI impI)
  show "formatNotionStyleResponse (formatNotionStyleResponse t) =
     withHeadings (withBullets (formatNotionStyleResponse t))"
    by (rule second_pass)
next
  assume plain: "0x2D \<notin> set t \<and> 0x23 \<notin> set t"
  obtain r where r: "rewritten t = formatNotionStyleResponse t @ r"
    using formatNotionStyleResponse_prefix by blast
  have "set (formatNotionStyleResponse t) \<subseteq> set (rewritten t)"
    unfolding r by simp
  also have "\<dots> \<subseteq> set t"
    using plain set_withParagraphs [of t] by (simp add: rewritten_plain)
  finally have "0x2D \<notin> set (formatNotionStyleResponse t)"
    and "0x23 \<notin> set (formatNotionStyleResponse t)"
    using plain by auto
  then show "formatNotionStyleResponse (formatNotionStyleResponse t) = formatNotionStyleResponse t"
    by (simp add: second_pass withBullets_def withHeadings_def withBullets_from_no_hyphen
        withHeadings_from_no_hash)
qed

theorem formatter_second_pass_witness:
  "0x2D \<notin> set (str ''One?\<newline>\<newline>\<newline>Two? Three'') \<and> 0x23 \<notin> set (str ''One?\<newline>\<newline>\<newline>Two? Three'')
   \<and> formatNotionStyleResponse (str ''One?\<newline>\<newline>\<newline>Two? Three'') = str ''One?''
   \<and> formatNotionStyleResponse (formatNotionStyleResponse (str ''One?\<newline>\<newline>\<newline>Two? Three''))
       = formatNotionStyleResponse (str ''One?\<newline>\<newline>\<newline>Two? Three'')"
proof -
  have p: "0x2D \<notin> set (str ''One?\<newline>\<newline>\<newline>Two? Three'') \<and> 0x23 \<notin> set (str ''One?\<newline>\<newline>\<newline>Two? Three'')"
    by (simp add: str_def)
  have f: "formatNotionStyleResponse (str ''One?\<newline>\<newline>\<newline>Two? Three'') = str ''One?''"
    by (simp add: format_defs eval_defs)
  from formatter_second_pass [of "str ''One?\<newline>\<newline>\<newline>Two? Three''"] p
  have "formatNotionStyleResponse (formatNotionStyleResponse (str ''One?\<newline>\<newline>\<newline>Two? Three''))
       = formatNotionStyleResponse (str ''One?\<newline>\<newline>\<newline>Two? Three'')"
    by blast
  with p f show ?thesis by simp
qed

text \<open>
  The claim as stated fails: the heading rewrite of \<open># # a\<close> leaves \<open># A\<close>, itself a
  heading line, which the second pass rewrites to \<open>A\<close>.
\<close>

theorem formatter_idempotent_counterexample:
  "formatNotionStyleResponse (str ''# # a'') = str ''# A''
   \<and> formatNotionStyleResponse (formatNotionStyleResponse (str ''# # a'')) = str ''A''
   \<and> formatNotionStyleResponse (formatNotionStyleResponse (str ''# # a''))
       \<noteq> formatNotionStyleResponse (str ''# # a'')"
proof -
  have a: "formatNotionStyleResponse (str ''# # a'') = str ''# A''"
    by (simp add: format_defs eval_defs)
  have b: "formatNotionStyleResponse (str ''# A'') = str ''A''"
    by (simp add: format_defs eval_defs)
  have "str ''A'' \<noteq> str ''# A''" by (simp add: str_def)
  with a b show ?thesis by simp
qed

section \<open>Prompt Builder and the single-question instruction\<close>

lemma str_code_units: "x \<in> set (str s) \<Longrightarrow> x < 256"
  by (auto simp: str_def nat_of_char_less_256)

lemma instruction_end: "\<exists>s0. singleQuestionInstruction = s0 @ [0x53, 0x2E]"
proof -
  have "str ''\<newline>\<newline>Remember: ONE QUESTION PER RESPONSE - NO EXCEPTIONS.'' =
        str ''\<newline>\<newline>Remember: ONE QUESTION PER RESPONSE - NO EXCEPTION'' @ [0x53, 0x2E]"
    by (simp add: str_def)
  then show ?thesis
    unfolding singleQuestionInstruction_def by (metis append.assoc)
qed

lemma userPreference_end: "\<exists>u0. userPreference = u0 @ [0x72, 0x2E]"
proof -
  have "str ''After each user reply, choose the next most logical question based on their answer.'' =
        str ''After each user reply, choose the next most logical question based on their answe'' @ [0x72, 0x2E]"
    by (simp add: str_def)
  then show ?thesis
    unfolding userPreference_def by (metis append.assoc)
qed

lemma suffix_last_two:
  assumes "suffix (u @ [a, b]) (y @ [c, d])"
  shows "a = c"
proof -
  from assms obtain z where "y @ [c, d] = (z @ u) @ [a, b]"
    by (auto simp: suffix_def)
  then show ?thesis by simp
qed

lemma userPreference_not_suffix: "\<not> suffix userPreference (y @ singleQuestionInstruction)"
proof
  assume s: "suffix userPreference (y @ singleQuestionInstruction)"
  obtain s0 where s0: "singleQuestionInstruction = s0 @ [0x53, 0x2E]"
    using instruction_end by blast
  obtain u0 where u0: "userPreference = u0 @ [0x72, 0x2E]"
    using userPreference_end by blast
  from s have "suffix (u0 @ [0x72, 0x2E]) ((y @ s0) @ [0x53, 0x2E])"
    unfolding s0 u0 by simp
  then have "(0x72 :: nat) = 0x53" by (rule suffix_last_two)
  then show False by simp
qed

lemma warning_sign_userPreference: "0x26A0 \<in> set userPreference"
  by (simp add: userPreference_def)

lemma warning_sign_literals:
  "0x26A0 \<notin> set singleQuestionInstruction"
  "0x26A0 \<notin> set notionGuidelines"
  by (auto simp: singleQuestionInstruction_def notionGuidelines_def dest: str_code_units)

lemma warning_sign_clientFacts:
  assumes "\<forall>s\<in>set (attributeValues c). 0x26A0 \<notin> set s"
  shows "0x26A0 \<notin> set (clientFacts c)"
proof -
  have v: "0x26A0 \<notin> set (interpolate v)"
    if "truthy v" "v \<in> {name c, budget c, preferredLocation c, propertyType c}" for v
  proof -
    from that(1) obtain s where s: "v = Some s" by (cases v) (auto simp: truthy_def)
    with that(2) have "s \<in> set (attributeValues c)" by (auto simp: attributeValues_def)
    with assms s show ?thesis by (simp add: interpolate_def)
  qed
  have l: "0x26A0 \<notin> set (str x)" for x
    by (auto dest: str_code_units)
  show ?thesis
    unfolding clientFacts_def
    by (auto simp: v l warning_sign_literals split: option.splits)
qed

lemma content_split:
  "content (createSystemMessage li) =
     promptHead li @ singleQuestionInstruction
     @ (if \<exists>c. li = Some c \<and> oneQuestionAtATime c then userPreference else [])"
  by (cases li) (simp_all add: createSystemMessage_def)

lemma instruction_contained:
  "sublist singleQuestionInstruction (content (createSystemMessage li))"
  unfolding content_split by (rule sublist_appendI)

lemma flag_set_suffix:
  assumes "\<exists>c. li = Some c \<and> oneQuestionAtATime c"
  shows "suffix userPreference (content (createSystemMessage li))"
proof -
  have "content (createSystemMessage li) =
      (promptHead li @ singleQuestionInstruction) @ userPreference"
    unfolding content_split if_P [OF assms] by simp
  then show ?thesis by (rule suffixI)
qed

lemma flag_unset_suffix:
  assumes "\<not> (\<exists>c. li = Some c \<and> oneQuestionAtATime c)"
  shows "\<not> suffix userPreference (content (createSystemMessage li))"
proof -
  have "content (createSystemMessage li) = promptHead li @ singleQuestionInstruction"
    unfolding content_split if_not_P [OF assms] by simp
  then show ?thesis by (simp add: userPreference_not_suffix)
qed

lemma warning_sign_promptHead:
  assumes "\<forall>c. li = Some c \<longrightarrow> (\<forall>s\<in>set (attributeValues c). 0x26A0 \<notin> set s)"
  shows "0x26A0 \<notin> set (promptHead li)"
proof -
  have l: "0x26A0 \<notin> set (str x)" for x
    by (auto dest: str_code_units)
  have "0x26A0 \<notin> set (case li of Some c \<Rightarrow> clientFacts c | None \<Rightarrow> [])"
    using assms by (cases li) (simp_all add: warning_sign_clientFacts)
  then show ?thesis
    unfolding promptHead_def set_append by (simp only: Un_iff l) simp
qed

lemma flag_unset_sublist:
  assumes "\<not> (\<exists>c. li = Some c \<and> oneQuestionAtATime c)"
    and "\<forall>c. li = Some c \<longrightarrow> (\<forall>s\<in>set (attributeValues c). 0x26A0 \<notin> set s)"
  shows "\<not> sublist userPreference (content (createSystemMessage li))"
proof
  assume "sublist userPreference (content (createSystemMessage li))"
  then have "set userPreference \<subseteq> set (content (createSystemMessage li))"
    by (rule set_mono_sublist)
  with warning_sign_userPreference have "0x26A0 \<in> set (content (createSystemMessage li))"
    by blast
  moreover have "content (createSystemMessage li) = promptHead li @ singleQuestionInstruction"
    unfolding content_split if_not_P [OF assms(1)] by simp
  ultimately have "0x26A0 \<in> set (promptHead li) \<union> set singleQuestionInstruction"
    by simp
  with warning_sign_promptHead [OF assms(2)] warning_sign_literals(1) show False
    by blast
qed

text \<open>
  Claim C9, as amended. For every snapshot (\<open>null\<close> included) the prompt contains the
  single-question instruction, and it ends with the restatement if and only if
  \<open>oneQuestionAtATime\<close> is set on a non-null snapshot; when the flag is set the
  restatement is contained. The attribute texts are quoted in the prompt as they are,
  so "contains only if the flag is set" needs a condition on them: it holds for every
  snapshot none of whose attribute texts holds the warning sign U+26A0 that opens the
  restatement.
\<close>

theorem system_message_single_question:
  "sublist singleQuestionInstruction (content (createSystemMessage li))
   \<and> (suffix userPreference (content (createSystemMessage li))
        \<longleftrightarrow> (\<exists>c. li = Some c \<and> oneQuestionAtATime c))
   \<and> ((\<exists>c. li = Some c \<and> oneQuestionAtATime c)
        \<longrightarrow> sublist userPreference (content (createSystemMessage li)))
   \<and> ((\<forall>c. li = Some c \<longrightarrow> (\<forall>s\<in>set (attributeValues c). 0x26A0 \<notin> set s))
        \<longrightarrow> (sublist userPreference (content (createSystemMessage li))
              \<longleftrightarrow> (\<exists>c. li = Some c \<and> oneQuestionAtATime c)))"
proof (intro conjI impI iffI)
  show "sublist singleQuestionInstruction (content (createSystemMessage li))"
    by (rule instruction_contained)
next
  assume "suffix userPreference (content (createSystemMessage li))"
  then show "\<exists>c. li = Some c \<and> oneQuestionAtATime c"
    using flag_unset_suffix by blast
next
  assume "\<exists>c. li = Some c \<and> oneQuestionAtATime c"
  then show "suffix userPreference (content (createSystemMessage li))"
    by (rule flag_set_suffix)
next
  assume "\<exists>c. li = Some c \<and> oneQuestionAtATime c"
  then show "sublist userPreference (content (createSystemMessage li))"
    by (intro suffix_imp_sublist flag_set_suffix)
next
  assume "\<forall>c. li = Some c \<longrightarrow> (\<forall>s\<in>set (attributeValues c). 0x26A0 \<notin> set s)"
    and "sublist userPreference (content (createSystemMessage li))"
  then show "\<exists>c. li = Some c \<and> oneQuestionAtATime c"
    using flag_unset_sublist by blast
next
  assume "\<exists>c. li = Some c \<and> oneQuestionAtATime c"
  then show "sublist userPreference (content (createSystemMessage li))"
    by (intro suffix_imp_sublist flag_set_suffix)
qed

lemma buildContext_fields:
  "name (buildContext l u) = name l" "budget (buildContext l u) = budget l"
  "preferredLocation (buildContext l u) = preferredLocation l"
  "propertyType (buildContext l u) = propertyType l"
  "oneQuestionAtATime (buildContext l u) = True"
  by (simp_all add: buildContext_def lead.defs contextWithUiInfo.defs)

theorem system_message_single_question_witness:
  "attributeValues (buildContext aliceLead JUndefined) =
     [str ''Alice'', str ''500,000'', str ''Pune'', str ''villa'']
   \<and> oneQuestionAtATime (buildContext aliceLead JUndefined)
   \<and> sublist singleQuestionInstruction
        (content (createSystemMessage (Some (buildContext aliceLead JUndefined))))
   \<and> sublist userPreference
        (content (createSystemMessage (Some (buildContext aliceLead JUndefined))))
   \<and> \<not> sublist userPreference (content (createSystemMessage None))"
proof -
  have a: "\<forall>s\<in>set (attributeValues (buildContext aliceLead JUndefined)). 0x26A0 \<notin> set s"
    by (simp add: attributeValues_def buildContext_fields aliceLead_def str_def)
  have f: "oneQuestionAtATime (buildContext aliceLead JUndefined)"
    by (simp add: buildContext_fields)
  from system_message_single_question [of "Some (buildContext aliceLead JUndefined)"] a f
  have s: "sublist singleQuestionInstruction
        (content (createSystemMessage (Some (buildContext aliceLead JUndefined))))
   \<and> sublist userPreference
        (content (createSystemMessage (Some (buildContext aliceLead JUndefined))))"
    by blast
  from system_message_single_question [of None]
  have "\<not> sublist userPreference (content (createSystemMessage None))"
    by blast
  moreover have "attributeValues (buildContext aliceLead JUndefined) =
     [str ''Alice'', str ''500,000'', str ''Pune'', str ''villa'']"
    by (simp add: attributeValues_def buildContext_fields aliceLead_def)
  ultimately show ?thesis using f s by blast
qed

text \<open>
  The claim as stated fails: a snapshot whose name is the text of the restatement and
  whose flag is not set gives a prompt that contains the restatement.
\<close>

theorem system_message_counterexample:
  "\<not> oneQuestionAtATime quotingContext
   \<and> sublist userPreference (content (createSystemMessage (Some quotingContext)))"
proof -
  have ne: "userPreference \<noteq> []"
    using warning_sign_userPreference by auto
  have "clientFacts quotingContext =
      (str ''Here is what you know about the client: '' @ str ''Their name is '')
      @ userPreference
      @ (str ''. '' @ str ''Use this information to provide personalized assistance. '')"
    by (simp add: clientFacts_def quotingContext_def truthy_def interpolate_def ne)
  then have "content (createSystemMessage (Some quotingContext)) =
      (str ''You are a helpful real estate assistant. ''
       @ str ''Here is what you know about the client: '' @ str ''Their name is '')
      @ userPreference
      @ (str ''. '' @ str ''Use this information to provide personalized assistance. ''
         @ str ''Be friendly, professional, and helpful. Your goal is to collect information about their real estate needs and preferences.''
         @ singleQuestionInstruction)"
    by (simp add: createSystemMessage_def promptHead_def quotingContext_def)
  then have "sublist userPreference (content (createSystemMessage (Some quotingContext)))"
    by (metis sublist_appendI)
  moreover have "\<not> oneQuestionAtATime quotingContext"
    by (simp add: quotingContext_def)
  ultimately show ?thesis by simp
qed

end
